theory Spec2Isabelle
  imports Complex_Main
begin

section \<open>The hypergrid environment of gfn/envs/hypergrid.py\<close>

text \<open>
  The development embeds the dataclass \<^verbatim>\<open>HyperGrid\<close> and the batch class
  \<^verbatim>\<open>StatesBatch\<close> it builds. A batch is one-dimensional (\<^verbatim>\<open>batch_shape = (n_envs,)\<close>,
  the shape both transition functions index with \<^verbatim>\<open>torch.gather(_, 1, _)\<close>): a tensor of
  shape \<^verbatim>\<open>(n_envs, k)\<close> is the list of its rows.

  Tensor entries are 64-bit integers in the source. \<open>step\<close> and \<open>backward_step\<close>
  are stated on the integers: a transition adds or subtracts one and tests a row sum
  against zero, which is the arithmetic of the tensors as long as no coordinate is at a
  64-bit limit and no row sum reaches \<^verbatim>\<open>2 ** 64\<close>, as on the states of a grid with
  \<^verbatim>\<open>ndim * (height - 1)\<close> below \<^verbatim>\<open>2 ** 63\<close>. Where a caller's array can hold any 64-bit
  value, or where the values grow with the size of the grid, the wrap-around is written
  out: in \<open>update_the_dones\<close>, whose row sum wraps, in \<open>get_states_indices\<close>, which
  raises \<^verbatim>\<open>height\<close> to powers up to \<^verbatim>\<open>ndim - 1\<close>, and in \<open>step64\<close>, the forward
  transition with the coordinate arithmetic of the tensors.

  \<^verbatim>\<open>HyperGrid.reward\<close> is floating-point tensor arithmetic and is not embedded.
\<close>

subsection \<open>64-bit integers\<close>

text \<open>\<open>wrap64\<close> is the signed 64-bit value of an integer.\<close>

definition wrap64 :: "int \<Rightarrow> int" where
  "wrap64 x = (x + 2 ^ 63) mod 2 ^ 64 - 2 ^ 63"

subsection \<open>Errors\<close>

text \<open>
  \<^verbatim>\<open>ValueError\<close> is raised by the transition functions themselves,
  \<^verbatim>\<open>RuntimeError\<close> by \<^verbatim>\<open>torch.gather\<close> on an index outside the mask's columns and by an
  operation on tensors of different shapes, \<^verbatim>\<open>IndexError\<close> by tensor indexing, and
  \<^verbatim>\<open>AssertionError\<close> by the batch constructor.
\<close>

datatype error = ValueError | RuntimeError | IndexError | AssertionError

subsection \<open>Configuration\<close>

record HyperGrid =
  n_envs :: nat
  ndim :: nat
  height :: int
  R0 :: real
  R1 :: real
  R2 :: real
  reward_cos :: bool

definition n_actions :: "HyperGrid \<Rightarrow> nat" where
  "n_actions env = ndim env + 1"

definition n_states :: "HyperGrid \<Rightarrow> int" where
  "n_states env = height env ^ ndim env"

subsection \<open>Batches of states\<close>

record StatesBatch =
  states :: "int list list"
  masks :: "bool list list"
  backward_masks :: "bool list list"
  already_dones :: "bool list"

text \<open>
  \<^verbatim>\<open>make_masks\<close>: a tensor of ones in which every position selected by
  \<^verbatim>\<open>cat([states == height - 1, zeros], -1)\<close> is set to false. The argument is
  \<^verbatim>\<open>self.states\<close>; its rows have \<^verbatim>\<open>ndim\<close> entries, as the constructor asserts.
\<close>

definition make_masks :: "HyperGrid \<Rightarrow> int list list \<Rightarrow> bool list list" where
  "make_masks env sts =
     map (\<lambda>row. map Not (map (\<lambda>c. c = height env - 1) row @ [False])) sts"

text \<open>\<^verbatim>\<open>make_backward_masks\<close>: ones, set to false where \<^verbatim>\<open>states == 0\<close>.\<close>

definition make_backward_masks :: "HyperGrid \<Rightarrow> int list list \<Rightarrow> bool list list" where
  "make_backward_masks env sts = map (\<lambda>row. map Not (map (\<lambda>c. c = 0) row)) sts"

text \<open>
  Modelled from the spec: \<^verbatim>\<open>AbstractStatesBatch.update_masks\<close> of gfn/envs/env.py, which
  is not among the sources. The spec's \<^verbatim>\<open>recompute_masks()\<close> re-derives both masks from
  the current states; the batch's own \<^verbatim>\<open>make_masks\<close> and \<^verbatim>\<open>make_backward_masks\<close>
  above are what computes them.
\<close>

definition update_masks :: "HyperGrid \<Rightarrow> StatesBatch \<Rightarrow> StatesBatch" where
  "update_masks env st =
     st\<lparr>masks := make_masks env (states st),
        backward_masks := make_backward_masks env (states st)\<rparr>"

text \<open>
  Modelled from the spec: \<^verbatim>\<open>AbstractStatesBatch.__post_init__\<close> of gfn/envs/env.py, which
  the batch constructor ends with. A fresh batch has its masks derived from its states
  and no element done.
\<close>

definition post_init :: "HyperGrid \<Rightarrow> int list list \<Rightarrow> StatesBatch" where
  "post_init env sts =
     \<lparr>states = sts, masks = make_masks env sts,
      backward_masks = make_backward_masks env sts,
      already_dones = replicate (length sts) False\<rparr>"

text \<open>
  \<^verbatim>\<open>StatesBatch.__post_init__\<close>, one function per branch. Without states the batch is
  all zeros; with \<^verbatim>\<open>random\<close> it is drawn by \<^verbatim>\<open>torch.randint(0, height, shape)\<close>, so
  the drawn array is an argument here and \<open>randint_range\<close> says what the draw
  guarantees; with caller-supplied states only the last dimension is asserted.
\<close>

definition StatesBatch_zeros :: "HyperGrid \<Rightarrow> StatesBatch" where
  "StatesBatch_zeros env = post_init env (replicate (n_envs env) (replicate (ndim env) 0))"

definition randint_range :: "HyperGrid \<Rightarrow> int list list \<Rightarrow> bool" where
  "randint_range env sts =
     (length sts = n_envs env \<and>
      list_all (\<lambda>row. length row = ndim env \<and> list_all (\<lambda>c. 0 \<le> c \<and> c < height env) row) sts)"

definition StatesBatch_random :: "HyperGrid \<Rightarrow> int list list \<Rightarrow> StatesBatch" where
  "StatesBatch_random env drawn = post_init env drawn"

definition StatesBatch_of :: "HyperGrid \<Rightarrow> int list list \<Rightarrow> error + StatesBatch" where
  "StatesBatch_of env sts =
     (if list_all (\<lambda>row. length row = ndim env) sts then Inr (post_init env sts)
      else Inl AssertionError)"

text \<open>
  \<^verbatim>\<open>update_the_dones\<close>: \<^verbatim>\<open>already_dones = states.sum(-1) == 0\<close>. The sum of a row of a
  64-bit tensor is a 64-bit integer: it wraps around.
\<close>

definition update_the_dones :: "StatesBatch \<Rightarrow> StatesBatch" where
  "update_the_dones st =
     st\<lparr>already_dones := map (\<lambda>row. wrap64 (sum_list row) = 0) (states st)\<rparr>"

text \<open>
  Modelled from the spec: \<^verbatim>\<open>Env.reset\<close> of gfn/envs/env.py, which sets the environment's
  batch to a fresh all-origin one.
\<close>

definition reset :: "HyperGrid \<Rightarrow> StatesBatch" where
  "reset env = StatesBatch_zeros env"

subsection \<open>Tensor operations used by the transitions\<close>

text \<open>\<^verbatim>\<open>t[mask]\<close> for a boolean mask over the first dimension.\<close>

fun bool_index :: "'a list \<Rightarrow> bool list \<Rightarrow> 'a list" where
  "bool_index (x # xs) (m # ms) = (if m then x # bool_index xs ms else bool_index xs ms)"
| "bool_index _ _ = []"

text \<open>
  \<^verbatim>\<open>t[mask] = values\<close>: the selected rows are replaced, in order, by the rows of
  \<^verbatim>\<open>values\<close>.
\<close>

fun bool_assign :: "'a list \<Rightarrow> bool list \<Rightarrow> 'a list \<Rightarrow> 'a list" where
  "bool_assign (x # xs) (m # ms) vs =
     (if m then (case vs of [] \<Rightarrow> x # bool_assign xs ms [] | v # vs' \<Rightarrow> v # bool_assign xs ms vs')
      else x # bool_assign xs ms vs)"
| "bool_assign xs _ _ = xs"

text \<open>
  \<^verbatim>\<open>torch.gather(rows, 1, idx.unsqueeze(1))\<close>: entry \<^verbatim>\<open>idx[k]\<close> of row \<^verbatim>\<open>k\<close>. An index
  outside the row, negative ones included, is a \<^verbatim>\<open>RuntimeError\<close>.
\<close>

definition gather :: "bool list list \<Rightarrow> int list \<Rightarrow> error + bool list" where
  "gather rows idx =
     (if list_all2 (\<lambda>r i. 0 \<le> i \<and> i < int (length r)) rows idx
      then Inr (map2 (\<lambda>r i. r ! nat i) rows idx)
      else Inl RuntimeError)"

text \<open>
  \<^verbatim>\<open>rows[torch.arange(n), idx] += v\<close>: in row \<^verbatim>\<open>k\<close> the entry \<^verbatim>\<open>idx[k]\<close> grows by
  \<^verbatim>\<open>v\<close>. Advanced indexing counts a negative index from the end and raises
  \<^verbatim>\<open>IndexError\<close> outside the row. The entry is added to as an integer;
  \<open>index_add64\<close> below is the same update with the 64-bit addition of the tensors.
\<close>

definition index_add :: "int list \<Rightarrow> int \<Rightarrow> int \<Rightarrow> error + int list" where
  "index_add row a v =
     (let n = int (length row); j = (if a < 0 then a + n else a)
      in if 0 \<le> j \<and> j < n then Inr (row[nat j := row ! nat j + v]) else Inl IndexError)"

fun rows_add :: "int list list \<Rightarrow> int list \<Rightarrow> int \<Rightarrow> error + int list list" where
  "rows_add [] [] v = Inr []"
| "rows_add (r # rs) (a # as) v =
     (case index_add r a v of
        Inl e \<Rightarrow> Inl e
      | Inr r' \<Rightarrow> (case rows_add rs as v of Inl e \<Rightarrow> Inl e | Inr rs' \<Rightarrow> Inr (r' # rs')))"
| "rows_add _ _ v = Inl IndexError"

subsection \<open>Transitions\<close>

text \<open>
  \<^verbatim>\<open>HyperGrid.step\<close> works on the environment's own batch \<^verbatim>\<open>self._state\<close> in place. The
  model takes that batch and returns, on success, the batch after the call (which is
  also the returned deep copy) with the done vector, and on an exception the error
  with the batch as the exception leaves it.
\<close>

definition step ::
  "HyperGrid \<Rightarrow> StatesBatch \<Rightarrow> int list \<Rightarrow> (error \<times> StatesBatch) + (StatesBatch \<times> bool list)" where
  "step env st actions =
     (if length (masks st) \<noteq> length (already_dones st) \<or>
         length actions \<noteq> length (already_dones st)
      then Inl (IndexError, st)
      else
        let not_done = map Not (already_dones st);
            not_done_states_masks = bool_index (masks st) not_done;
            not_done_actions = bool_index actions not_done
        in case gather not_done_states_masks not_done_actions of
             Inl e \<Rightarrow> Inl (e, st)
           | Inr actions_valid \<Rightarrow>
               if \<not> list_all id actions_valid then Inl (ValueError, st)
               else
                 let dones = map2 (\<or>) (already_dones st)
                               (map (\<lambda>a. a = int (n_actions env) - 1) actions);
                     st1 = st\<lparr>already_dones := dones\<rparr>
                 in if length (states st1) \<noteq> length dones then Inl (IndexError, st1)
                    else
                      let not_done_states = bool_index (states st1) (map Not dones);
                          not_done_actions = bool_index actions (map Not dones)
                      in (case rows_add not_done_states not_done_actions 1 of
                            Inl e \<Rightarrow> Inl (e, st1)
                          | Inr updated \<Rightarrow>
                              let st2 = st1\<lparr>states :=
                                          bool_assign (states st1) (map Not dones) updated\<rparr>
                              in Inr (update_masks env st2, dones)))"

text \<open>
  \<^verbatim>\<open>HyperGrid.backward_step\<close> starts with a deep copy of its argument, so the caller's
  batch is the same object before and after, whatever the outcome; the function is
  pure and returns the copy it worked on.
\<close>

definition backward_step ::
  "HyperGrid \<Rightarrow> StatesBatch \<Rightarrow> int list \<Rightarrow> error + (StatesBatch \<times> bool list)" where
  "backward_step env st actions =
     (if length (backward_masks st) \<noteq> length (already_dones st) \<or>
         length actions \<noteq> length (already_dones st)
      then Inl IndexError
      else
        let not_done = map Not (already_dones st);
            not_done_states_masks = bool_index (backward_masks st) not_done;
            not_done_actions = bool_index actions not_done
        in case gather not_done_states_masks not_done_actions of
             Inl e \<Rightarrow> Inl e
           | Inr actions_valid \<Rightarrow>
               if \<not> list_all id actions_valid then Inl ValueError
               else if length (states st) \<noteq> length not_done then Inl IndexError
               else
                 (case rows_add (bool_index (states st) not_done) not_done_actions (- 1) of
                    Inl e \<Rightarrow> Inl e
                  | Inr updated \<Rightarrow>
                      let st1 = st\<lparr>states := bool_assign (states st) not_done updated\<rparr>;
                          dones = map2 (\<or>) (already_dones st1)
                                    (map (\<lambda>row. sum_list row = 0) (states st1));
                          st2 = st1\<lparr>already_dones := dones\<rparr>
                      in Inr (update_masks env st2, dones)))"

text \<open>
  The forward transition with the arithmetic of the tensors: \<^verbatim>\<open>+= 1\<close> on a 64-bit entry
  wraps around. \<open>step64\<close> is \<open>step\<close> with this one difference, in the index update.
\<close>

definition index_add64 :: "int list \<Rightarrow> int \<Rightarrow> int \<Rightarrow> error + int list" where
  "index_add64 row a v =
     (let n = int (length row); j = (if a < 0 then a + n else a)
      in if 0 \<le> j \<and> j < n then Inr (row[nat j := wrap64 (row ! nat j + v)])
         else Inl IndexError)"

fun rows_add64 :: "int list list \<Rightarrow> int list \<Rightarrow> int \<Rightarrow> error + int list list" where
  "rows_add64 [] [] v = Inr []"
| "rows_add64 (r # rs) (a # as) v =
     (case index_add64 r a v of
        Inl e \<Rightarrow> Inl e
      | Inr r' \<Rightarrow> (case rows_add64 rs as v of Inl e \<Rightarrow> Inl e | Inr rs' \<Rightarrow> Inr (r' # rs')))"
| "rows_add64 _ _ v = Inl IndexError"

definition step64 ::
  "HyperGrid \<Rightarrow> StatesBatch \<Rightarrow> int list \<Rightarrow> (error \<times> StatesBatch) + (StatesBatch \<times> bool list)" where
  "step64 env st actions =
     (if length (masks st) \<noteq> length (already_dones st) \<or>
         length actions \<noteq> length (already_dones st)
      then Inl (IndexError, st)
      else
        let not_done = map Not (already_dones st);
            not_done_states_masks = bool_index (masks st) not_done;
            not_done_actions = bool_index actions not_done
        in case gather not_done_states_masks not_done_actions of
             Inl e \<Rightarrow> Inl (e, st)
           | Inr actions_valid \<Rightarrow>
               if \<not> list_all id actions_valid then Inl (ValueError, st)
               else
                 let dones = map2 (\<or>) (already_dones st)
                               (map (\<lambda>a. a = int (n_actions env) - 1) actions);
                     st1 = st\<lparr>already_dones := dones\<rparr>
                 in if length (states st1) \<noteq> length dones then Inl (IndexError, st1)
                    else
                      let not_done_states = bool_index (states st1) (map Not dones);
                          not_done_actions = bool_index actions (map Not dones)
                      in (case rows_add64 not_done_states not_done_actions 1 of
                            Inl e \<Rightarrow> Inl (e, st1)
                          | Inr updated \<Rightarrow>
                              let st2 = st1\<lparr>states :=
                                          bool_assign (states st1) (map Not dones) updated\<rparr>
                              in Inr (update_masks env st2, dones)))"

text \<open>Runs of transitions: every call works on the batch the previous one left.\<close>

fun run_steps ::
  "HyperGrid \<Rightarrow> StatesBatch \<Rightarrow> int list list \<Rightarrow> (error \<times> StatesBatch) + StatesBatch" where
  "run_steps env st [] = Inr st"
| "run_steps env st (actions # rest) =
     (case step env st actions of
        Inl e \<Rightarrow> Inl e
      | Inr (st', dones) \<Rightarrow> run_steps env st' rest)"

fun run_backward :: "HyperGrid \<Rightarrow> StatesBatch \<Rightarrow> int list list \<Rightarrow> error + StatesBatch" where
  "run_backward env st [] = Inr st"
| "run_backward env st (actions # rest) =
     (case backward_step env st actions of
        Inl e \<Rightarrow> Inl e
      | Inr (st', dones) \<Rightarrow> run_backward env st' rest)"

subsection \<open>State indices\<close>

text \<open>
  The query takes a batch or a raw state tensor
  (\<^verbatim>\<open>isinstance(_, AbstractStatesBatch)\<close>).
\<close>

datatype states_arg = OfBatch StatesBatch | OfTensor "int list list"

fun raw_states :: "states_arg \<Rightarrow> int list list" where
  "raw_states (OfBatch st) = states st"
| "raw_states (OfTensor sts) = sts"

text \<open>
  \<^verbatim>\<open>get_states_indices\<close> computes on 64-bit integer tensors: the powers
  \<^verbatim>\<open>height ** arange(ndim - 1, -1, -1)\<close>, their products with the coordinates and the
  sum all wrap around.
\<close>

definition canonical_base :: "HyperGrid \<Rightarrow> int list" where
  "canonical_base env = map (\<lambda>k. wrap64 (height env ^ k)) (rev [0..<ndim env])"

text \<open>
  \<^verbatim>\<open>(canonical_base * states).sum(-1)\<close> for one row of \<^verbatim>\<open>states\<close>. The product
  broadcasts: the shapes agree, or one of the two has a single entry; any other pair of
  shapes is a \<^verbatim>\<open>RuntimeError\<close>.
\<close>

definition state_index :: "HyperGrid \<Rightarrow> int list \<Rightarrow> error + int" where
  "state_index env row =
     (let base = canonical_base env
      in if length row = length base
         then Inr (wrap64 (sum_list (map2 (\<lambda>b c. wrap64 (b * c)) base row)))
         else if length row = 1
         then Inr (wrap64 (sum_list (map (\<lambda>b. wrap64 (b * hd row)) base)))
         else if length base = 1
         then Inr (wrap64 (sum_list (map (\<lambda>c. wrap64 (hd base * c)) row)))
         else Inl RuntimeError)"

fun collect :: "(error + 'a) list \<Rightarrow> error + 'a list" where
  "collect [] = Inr []"
| "collect (Inl e # _) = Inl e"
| "collect (Inr x # rest) = (case collect rest of Inl e \<Rightarrow> Inl e | Inr xs \<Rightarrow> Inr (x # xs))"

definition get_states_indices :: "HyperGrid \<Rightarrow> states_arg \<Rightarrow> error + int list" where
  "get_states_indices env sts = collect (map (state_index env) (raw_states sts))"

section \<open>Notions the properties are stated with\<close>

text \<open>
  The tensor shapes of a batch: one mask row, one backward mask row and one done flag
  per state, \<^verbatim>\<open>ndim\<close> coordinates, \<^verbatim>\<open>n_actions\<close> forward and \<^verbatim>\<open>ndim\<close> backward mask
  columns.
\<close>

definition shape_ok :: "HyperGrid \<Rightarrow> StatesBatch \<Rightarrow> bool" where
  "shape_ok env st =
     (length (masks st) = length (states st) \<and>
      length (backward_masks st) = length (states st) \<and>
      length (already_dones st) = length (states st) \<and>
      list_all (\<lambda>row. length row = ndim env) (states st) \<and>
      list_all (\<lambda>m. length m = n_actions env) (masks st) \<and>
      list_all (\<lambda>m. length m = ndim env) (backward_masks st))"

text \<open>The masks are the ones the current states give.\<close>

definition masks_current :: "HyperGrid \<Rightarrow> StatesBatch \<Rightarrow> bool" where
  "masks_current env st =
     (masks st = make_masks env (states st) \<and>
      backward_masks st = make_backward_masks env (states st))"

text \<open>Every coordinate lies on the grid.\<close>

definition in_grid :: "HyperGrid \<Rightarrow> int list list \<Rightarrow> bool" where
  "in_grid env sts = list_all (list_all (\<lambda>c. 0 \<le> c \<and> c \<le> height env - 1)) sts"

definition non_negative :: "int list list \<Rightarrow> bool" where
  "non_negative sts = list_all (list_all (\<lambda>c. 0 \<le> c)) sts"

text \<open>
  For the elements that are not done: the action is a column of the element's mask row
  (\<open>in_range\<close>), and the mask row allows it (\<open>allowed\<close>).
\<close>

definition in_range :: "bool list list \<Rightarrow> bool list \<Rightarrow> int list \<Rightarrow> bool" where
  "in_range tbl dn actions =
     (\<forall>i<length dn. \<not> dn ! i \<longrightarrow> 0 \<le> actions ! i \<and> actions ! i < int (length (tbl ! i)))"

definition allowed :: "bool list list \<Rightarrow> bool list \<Rightarrow> int list \<Rightarrow> bool" where
  "allowed tbl dn actions = (\<forall>i<length dn. \<not> dn ! i \<longrightarrow> tbl ! i ! nat (actions ! i))"

text \<open>What the index update of \<open>index_add\<close> checks and does.\<close>

definition index_ok :: "int list \<Rightarrow> int \<Rightarrow> bool" where
  "index_ok row a =
     (let n = int (length row); j = (if a < 0 then a + n else a) in 0 \<le> j \<and> j < n)"

definition index_upd :: "int \<Rightarrow> int list \<Rightarrow> int \<Rightarrow> int list" where
  "index_upd v row a =
     (let j = (if a < 0 then a + int (length row) else a) in row[nat j := row ! nat j + v])"

text \<open>
  The batch a successful transition leaves, row by row: the rows of the elements that
  are not \<open>frozen\<close> move by \<open>v\<close> along their action's axis.
\<close>

definition moved :: "int \<Rightarrow> bool list \<Rightarrow> int list list \<Rightarrow> int list \<Rightarrow> int list list" where
  "moved v frozen sts actions =
     map (\<lambda>(m, row, a). if m then index_upd v row a else row)
       (zip (map Not frozen) (zip sts actions))"

definition step_dones :: "HyperGrid \<Rightarrow> StatesBatch \<Rightarrow> int list \<Rightarrow> bool list" where
  "step_dones env st actions =
     map2 (\<or>) (already_dones st) (map (\<lambda>a. a = int (n_actions env) - 1) actions)"

definition backward_dones :: "StatesBatch \<Rightarrow> int list \<Rightarrow> bool list" where
  "backward_dones st actions =
     map2 (\<or>) (already_dones st)
       (map (\<lambda>row. sum_list row = 0) (moved (- 1) (already_dones st) (states st) actions))"

text \<open>
  The index update of \<open>index_add64\<close>, and the rows a successful \<open>step64\<close> leaves.
\<close>

definition index_upd64 :: "int \<Rightarrow> int list \<Rightarrow> int \<Rightarrow> int list" where
  "index_upd64 v row a =
     (let j = (if a < 0 then a + int (length row) else a)
      in row[nat j := wrap64 (row ! nat j + v)])"

definition moved64 :: "int \<Rightarrow> bool list \<Rightarrow> int list list \<Rightarrow> int list \<Rightarrow> int list list" where
  "moved64 v frozen sts actions =
     map (\<lambda>(m, row, a). if m then index_upd64 v row a else row)
       (zip (map Not frozen) (zip sts actions))"

text \<open>
  Every coordinate is a 64-bit value that one more increment does not take over the
  limit.
\<close>

definition below_limit :: "int list list \<Rightarrow> bool" where
  "below_limit sts = list_all (list_all (\<lambda>c. - (2 ^ 63) \<le> c \<and> c < 2 ^ 63 - 1)) sts"

text \<open>The exact sum of every row is below \<open>2 ^ 64\<close>.\<close>

definition sums_fit :: "int list list \<Rightarrow> bool" where
  "sums_fit sts = list_all (\<lambda>row. sum_list row < 2 ^ 64) sts"

text \<open>
  The done flags \<open>backward_step\<close> gives a batch whose elements have all just moved:
  an element is done where its row sums to zero.
\<close>

definition flag_origins :: "StatesBatch \<Rightarrow> StatesBatch" where
  "flag_origins st = st\<lparr>already_dones := map (\<lambda>row. sum_list row = 0) (states st)\<rparr>"

text \<open>
  The spec's words for the index: the state read as a number in base \<^verbatim>\<open>height\<close>, most
  significant coordinate first. The state space is the set of rows of \<^verbatim>\<open>ndim\<close>
  coordinates on the grid.
\<close>

definition mixed_radix :: "int \<Rightarrow> int list \<Rightarrow> int" where
  "mixed_radix h row = foldl (\<lambda>acc c. acc * h + c) 0 row"

definition state_space :: "HyperGrid \<Rightarrow> int list set" where
  "state_space env =
     {row. length row = ndim env \<and> list_all (\<lambda>c. 0 \<le> c \<and> c \<le> height env - 1) row}"

text \<open>
  The environment of the source's demo, \<^verbatim>\<open>HyperGrid(n_envs=3, height=3)\<close>, and a batch
  of it given by its states and done flags.
\<close>

definition demo_env :: HyperGrid where
  "demo_env = \<lparr>n_envs = 3, ndim = 2, height = 3, R0 = 1 / 10, R1 = 1 / 2, R2 = 2,
                reward_cos = False\<rparr>"

definition demo_batch :: "int list list \<Rightarrow> bool list \<Rightarrow> StatesBatch" where
  "demo_batch sts dn = (post_init demo_env sts)\<lparr>already_dones := dn\<rparr>"

text \<open>A grid of the default height with 22 dimensions.\<close>

definition wide_env :: HyperGrid where
  "wide_env = \<lparr>n_envs = 1, ndim = 22, height = 8, R0 = 1 / 10, R1 = 1 / 2, R2 = 2,
                reward_cos = False\<rparr>"

text \<open>A grid of the default height with 3 dimensions.\<close>

definition cube_env :: HyperGrid where
  "cube_env = \<lparr>n_envs = 1, ndim = 3, height = 8, R0 = 1 / 10, R1 = 1 / 2, R2 = 2,
                reward_cos = False\<rparr>"

section \<open>The tensor operations, element by element\<close>

lemma length_bool_index_le: "length (bool_index xs ms) \<le> length ms"
  by (induction xs ms rule: bool_index.induct) auto

lemma map2_bool_index:
  "length xs = length ms \<Longrightarrow> length ys = length ms \<Longrightarrow>
   map2 f (bool_index xs ms) (bool_index ys ms) = bool_index (map2 f xs ys) ms"
proof (induction ms arbitrary: xs ys)
  case Nil
  then show ?case by simp
next
  case (Cons m ms)
  then obtain x xs' y ys' where "xs = x # xs'" "ys = y # ys'"
    by (metis length_Suc_conv)
  with Cons show ?case by simp
qed

lemma list_all2_bool_index:
  "length xs = length ms \<Longrightarrow> length ys = length ms \<Longrightarrow>
   list_all2 P (bool_index xs ms) (bool_index ys ms) =
   (\<forall>i<length ms. ms ! i \<longrightarrow> P (xs ! i) (ys ! i))"
proof (induction ms arbitrary: xs ys)
  case Nil
  then show ?case by simp
next
  case (Cons m ms)
  then obtain x xs' y ys' where "xs = x # xs'" "ys = y # ys'"
    by (metis length_Suc_conv)
  with Cons show ?case by (auto simp: less_Suc_eq_0_disj)
qed

lemma list_all_bool_index:
  "length xs = length ms \<Longrightarrow>
   list_all P (bool_index xs ms) = (\<forall>i<length ms. ms ! i \<longrightarrow> P (xs ! i))"
proof (induction ms arbitrary: xs)
  case Nil
  then show ?case by simp
next
  case (Cons m ms)
  then obtain x xs' where "xs = x # xs'"
    by (metis length_Suc_conv)
  with Cons show ?case by (auto simp: less_Suc_eq_0_disj)
qed

lemma bool_assign_map2:
  "length xs = length ms \<Longrightarrow> length ys = length ms \<Longrightarrow>
   bool_assign xs ms (map2 f (bool_index xs ms) (bool_index ys ms)) =
   map (\<lambda>(m, x, y). if m then f x y else x) (zip ms (zip xs ys))"
proof (induction ms arbitrary: xs ys)
  case Nil
  then show ?case by simp
next
  case (Cons m ms)
  then obtain x xs' y ys' where "xs = x # xs'" "ys = y # ys'"
    by (metis length_Suc_conv)
  with Cons show ?case by simp
qed

lemma index_add_eq: "index_add row a v = (if index_ok row a then Inr (index_upd v row a) else Inl IndexError)"
  by (simp add: index_add_def index_ok_def index_upd_def Let_def)

lemma rows_add_eq:
  "rows_add rs as v =
   (if list_all2 index_ok rs as then Inr (map2 (index_upd v) rs as) else Inl IndexError)"
  by (induction rs as v rule: rows_add.induct) (auto simp: index_add_eq)

lemma gather_bool_index:
  assumes "length rows = length ms" "length idx = length ms"
  shows "gather (bool_index rows ms) (bool_index idx ms) =
     (if \<forall>i<length ms. ms ! i \<longrightarrow> 0 \<le> idx ! i \<and> idx ! i < int (length (rows ! i))
      then Inr (bool_index (map2 (\<lambda>r i. r ! nat i) rows idx) ms)
      else Inl RuntimeError)"
  using assms by (simp add: gather_def list_all2_bool_index map2_bool_index)

section \<open>The transitions in closed form\<close>

text \<open>
  On a batch of the right shapes, given one action per element, a transition has three
  outcomes: an action of an element that is not done is no column of its mask row, or
  it is one the mask row forbids, or every such element moves.
\<close>

lemma shape_okD:
  assumes "shape_ok env st"
  shows "length (masks st) = length (states st)"
    and "length (backward_masks st) = length (states st)"
    and "length (already_dones st) = length (states st)"
    and "i < length (states st) \<Longrightarrow> length (states st ! i) = ndim env"
    and "i < length (states st) \<Longrightarrow> length (masks st ! i) = n_actions env"
    and "i < length (states st) \<Longrightarrow> length (backward_masks st ! i) = ndim env"
  using assms by (auto simp: shape_ok_def list_all_length)

lemma validate_eq:
  assumes "length tbl = length dn" "length actions = length dn"
  shows "(case gather (bool_index tbl (map Not dn)) (bool_index actions (map Not dn)) of
            Inl e \<Rightarrow> A e
          | Inr actions_valid \<Rightarrow> if \<not> list_all id actions_valid then B else C) =
         (if \<not> in_range tbl dn actions then A RuntimeError
          else if \<not> allowed tbl dn actions then B else C)"
proof -
  have g: "gather (bool_index tbl (map Not dn)) (bool_index actions (map Not dn)) =
      (if in_range tbl dn actions
       then Inr (bool_index (map2 (\<lambda>r i. r ! nat i) tbl actions) (map Not dn))
       else Inl RuntimeError)"
    using assms by (simp add: gather_bool_index in_range_def)
  have v: "list_all id (bool_index (map2 (\<lambda>r i. r ! nat i) tbl actions) (map Not dn)) =
      allowed tbl dn actions"
    using assms by (simp add: list_all_bool_index allowed_def)
  show ?thesis
    by (cases "in_range tbl dn actions"; cases "allowed tbl dn actions") (simp_all add: g v)
qed

lemma moved_bool_assign:
  assumes "length sts = length frozen" "length actions = length frozen"
    and "\<forall>i<length frozen. \<not> frozen ! i \<longrightarrow> index_ok (sts ! i) (actions ! i)"
  shows "rows_add (bool_index sts (map Not frozen)) (bool_index actions (map Not frozen)) v =
           Inr (map2 (index_upd v) (bool_index sts (map Not frozen))
                  (bool_index actions (map Not frozen)))"
    and "bool_assign sts (map Not frozen)
           (map2 (index_upd v) (bool_index sts (map Not frozen))
              (bool_index actions (map Not frozen))) = moved v frozen sts actions"
proof -
  have "list_all2 index_ok (bool_index sts (map Not frozen)) (bool_index actions (map Not frozen))"
    using assms by (subst list_all2_bool_index) simp_all
  then show "rows_add (bool_index sts (map Not frozen)) (bool_index actions (map Not frozen)) v =
           Inr (map2 (index_upd v) (bool_index sts (map Not frozen))
                  (bool_index actions (map Not frozen)))"
    by (simp add: rows_add_eq)
  show "bool_assign sts (map Not frozen)
           (map2 (index_upd v) (bool_index sts (map Not frozen))
              (bool_index actions (map Not frozen))) = moved v frozen sts actions"
    using assms(1,2) by (simp add: bool_assign_map2 moved_def)
qed

lemma step_eq:
  assumes ok: "shape_ok env st" and len: "length actions = length (states st)"
  shows "step env st actions =
     (if \<not> in_range (masks st) (already_dones st) actions then Inl (RuntimeError, st)
      else if \<not> allowed (masks st) (already_dones st) actions then Inl (ValueError, st)
      else Inr (update_masks env
                  (st\<lparr>already_dones := step_dones env st actions,
                     states := moved 1 (step_dones env st actions) (states st) actions\<rparr>),
                step_dones env st actions))"
proof -
  let ?n = "length (states st)"
  let ?D = "step_dones env st actions"
  note sh = shape_okD[OF ok]
  have lens: "length (masks st) = ?n" "length actions = ?n"
    "length (already_dones st) = ?n" "length ?D = ?n"
    using sh len by (simp_all add: step_dones_def)
  have core: "in_range (masks st) (already_dones st) actions \<Longrightarrow>
      (let dones = map2 (\<or>) (already_dones st) (map (\<lambda>a. a = int (n_actions env) - 1) actions);
           st1 = st\<lparr>already_dones := dones\<rparr>
       in if length (states st1) \<noteq> length dones then Inl (IndexError, st1)
          else
            let not_done_states = bool_index (states st1) (map Not dones);
                not_done_actions = bool_index actions (map Not dones)
            in (case rows_add not_done_states not_done_actions 1 of
                  Inl e \<Rightarrow> Inl (e, st1)
                | Inr updated \<Rightarrow>
                    let st2 = st1\<lparr>states := bool_assign (states st1) (map Not dones) updated\<rparr>
                    in Inr (update_masks env st2, dones))) =
      Inr (update_masks env (st\<lparr>already_dones := ?D, states := moved 1 ?D (states st) actions\<rparr>), ?D)"
  proof -
    assume rng: "in_range (masks st) (already_dones st) actions"
    have "\<forall>i<length ?D. \<not> ?D ! i \<longrightarrow> index_ok (states st ! i) (actions ! i)"
    proof (intro allI impI)
      fix i assume i: "i < length ?D" and nd: "\<not> ?D ! i"
      then have i': "i < ?n" using lens by simp
      with nd lens have a: "\<not> already_dones st ! i" "actions ! i \<noteq> int (n_actions env) - 1"
        by (auto simp: step_dones_def)
      with rng i' lens sh(5)[OF i'] have "0 \<le> actions ! i" "actions ! i < int (n_actions env)"
        by (auto simp: in_range_def)
      with a sh(4)[OF i'] show "index_ok (states st ! i) (actions ! i)"
        by (simp add: index_ok_def n_actions_def)
    qed
    from moved_bool_assign[OF _ _ this, of 1] lens show ?thesis
      by (simp add: Let_def step_dones_def[symmetric])
  qed
  have "step env st actions =
     (if \<not> in_range (masks st) (already_dones st) actions then Inl (RuntimeError, st)
      else if \<not> allowed (masks st) (already_dones st) actions then Inl (ValueError, st)
      else (let dones = map2 (\<or>) (already_dones st) (map (\<lambda>a. a = int (n_actions env) - 1) actions);
           st1 = st\<lparr>already_dones := dones\<rparr>
       in if length (states st1) \<noteq> length dones then Inl (IndexError, st1)
          else
            let not_done_states = bool_index (states st1) (map Not dones);
                not_done_actions = bool_index actions (map Not dones)
            in (case rows_add not_done_states not_done_actions 1 of
                  Inl e \<Rightarrow> Inl (e, st1)
                | Inr updated \<Rightarrow>
                    let st2 = st1\<lparr>states := bool_assign (states st1) (map Not dones) updated\<rparr>
                    in Inr (update_masks env st2, dones))))"
    unfolding step_def using lens
    by (simp only: Let_def validate_eq[of "masks st" "already_dones st" actions] simp_thms if_False)
  then show ?thesis
    using core by (cases "in_range (masks st) (already_dones st) actions") simp_all
qed

lemma backward_step_eq:
  assumes ok: "shape_ok env st" and len: "length actions = length (states st)"
  shows "backward_step env st actions =
     (if \<not> in_range (backward_masks st) (already_dones st) actions then Inl RuntimeError
      else if \<not> allowed (backward_masks st) (already_dones st) actions then Inl ValueError
      else Inr (update_masks env
                  (st\<lparr>states := moved (- 1) (already_dones st) (states st) actions,
                     already_dones := backward_dones st actions\<rparr>),
                backward_dones st actions))"
proof -
  let ?n = "length (states st)"
  let ?d = "already_dones st"
  note sh = shape_okD[OF ok]
  have lens: "length (backward_masks st) = ?n" "length actions = ?n" "length ?d = ?n"
    using sh len by simp_all
  have core: "in_range (backward_masks st) ?d actions \<Longrightarrow>
      (if length (states st) \<noteq> length (map Not ?d) then Inl IndexError
       else
         (case rows_add (bool_index (states st) (map Not ?d)) (bool_index actions (map Not ?d)) (- 1) of
            Inl e \<Rightarrow> Inl e
          | Inr updated \<Rightarrow>
              let st1 = st\<lparr>states := bool_assign (states st) (map Not ?d) updated\<rparr>;
                  dones = map2 (\<or>) (already_dones st1)
                            (map (\<lambda>row. sum_list row = 0) (states st1));
                  st2 = st1\<lparr>already_dones := dones\<rparr>
              in Inr (update_masks env st2, dones))) =
      Inr (update_masks env
             (st\<lparr>states := moved (- 1) ?d (states st) actions,
                already_dones := backward_dones st actions\<rparr>),
           backward_dones st actions)"
  proof -
    assume rng: "in_range (backward_masks st) ?d actions"
    have "\<forall>i<length ?d. \<not> ?d ! i \<longrightarrow> index_ok (states st ! i) (actions ! i)"
    proof (intro allI impI)
      fix i assume i: "i < length ?d" and nd: "\<not> ?d ! i"
      then have i': "i < ?n" using lens by simp
      with rng nd lens sh(6)[OF i'] have "0 \<le> actions ! i" "actions ! i < int (ndim env)"
        by (auto simp: in_range_def)
      with sh(4)[OF i'] show "index_ok (states st ! i) (actions ! i)"
        by (simp add: index_ok_def)
    qed
    from moved_bool_assign[OF _ _ this, of "- 1"] lens show ?thesis
      by (simp add: Let_def backward_dones_def)
  qed
  have "backward_step env st actions =
     (if \<not> in_range (backward_masks st) ?d actions then Inl RuntimeError
      else if \<not> allowed (backward_masks st) ?d actions then Inl ValueError
      else (if length (states st) \<noteq> length (map Not ?d) then Inl IndexError
       else
         (case rows_add (bool_index (states st) (map Not ?d)) (bool_index actions (map Not ?d)) (- 1) of
            Inl e \<Rightarrow> Inl e
          | Inr updated \<Rightarrow>
              let st1 = st\<lparr>states := bool_assign (states st) (map Not ?d) updated\<rparr>;
                  dones = map2 (\<or>) (already_dones st1)
                            (map (\<lambda>row. sum_list row = 0) (states st1));
                  st2 = st1\<lparr>already_dones := dones\<rparr>
              in Inr (update_masks env st2, dones))))"
    unfolding backward_step_def using lens
    by (simp only: Let_def validate_eq[of "backward_masks st" "already_dones st" actions] simp_thms if_False)
  then show ?thesis
    using core by (cases "in_range (backward_masks st) ?d actions") simp_all
qed

section \<open>The demo scenario\<close>

text \<open>
  C1. With \<^verbatim>\<open>ndim = 2\<close>, \<^verbatim>\<open>height = 3\<close> and three elements at the origin, the actions
  \<^verbatim>\<open>[0, 1, 1]\<close> lead to the states \<^verbatim>\<open>[[1, 0], [0, 1], [0, 1]]\<close> with nobody done;
  then \<^verbatim>\<open>[0, 2, 1]\<close> lead to \<^verbatim>\<open>[[2, 0], [0, 1], [0, 2]]\<close> with element 1 done by its
  stop action and its state unchanged; then \<^verbatim>\<open>[1, 1, 2]\<close> make element 2 done; and
  \<^verbatim>\<open>[0, 1, 1]\<close> after that raise \<^verbatim>\<open>ValueError\<close>, the invalid-action error, because
  coordinate 0 of element 0 is \<^verbatim>\<open>height - 1 = 2\<close> and its forward mask is false there.
\<close>

theorem demo_scenario:
  "step demo_env (reset demo_env) [0, 1, 1] =
     Inr (demo_batch [[1, 0], [0, 1], [0, 1]] [False, False, False], [False, False, False]) \<and>
   states (demo_batch [[1, 0], [0, 1], [0, 1]] [False, False, False]) =
     [[1, 0], [0, 1], [0, 1]] \<and>
   step demo_env (demo_batch [[1, 0], [0, 1], [0, 1]] [False, False, False]) [0, 2, 1] =
     Inr (demo_batch [[2, 0], [0, 1], [0, 2]] [False, True, False], [False, True, False]) \<and>
   states (demo_batch [[2, 0], [0, 1], [0, 2]] [False, True, False]) =
     [[2, 0], [0, 1], [0, 2]] \<and>
   step demo_env (demo_batch [[2, 0], [0, 1], [0, 2]] [False, True, False]) [1, 1, 2] =
     Inr (demo_batch [[2, 1], [0, 1], [0, 2]] [False, True, True], [False, True, True]) \<and>
   step demo_env (demo_batch [[2, 1], [0, 1], [0, 2]] [False, True, True]) [0, 1, 1] =
     Inl (ValueError, demo_batch [[2, 1], [0, 1], [0, 2]] [False, True, True]) \<and>
   states (demo_batch [[2, 1], [0, 1], [0, 2]] [False, True, True]) ! 0 ! 0 =
     height demo_env - 1 \<and>
   masks (demo_batch [[2, 1], [0, 1], [0, 2]] [False, True, True]) ! 0 ! 0 = False \<and>
   states (reset demo_env) = [[0, 0], [0, 0], [0, 0]] \<and>
   already_dones (reset demo_env) = [False, False, False]"
  by code_simp

text \<open>The four calls of the demo as one run: the last one fails and leaves the batch of the third.\<close>

theorem demo_scenario_run:
  "run_steps demo_env (reset demo_env) [[0, 1, 1], [0, 2, 1], [1, 1, 2], [0, 1, 1]] =
     Inl (ValueError, demo_batch [[2, 1], [0, 1], [0, 2]] [False, True, True])"
  using demo_scenario by simp

section \<open>Invalid actions\<close>

lemma in_range_masks:
  assumes "shape_ok env st" "length actions = length (states st)"
  shows "in_range (masks st) (already_dones st) actions =
     (\<forall>i<length actions. \<not> already_dones st ! i \<longrightarrow>
        0 \<le> actions ! i \<and> actions ! i < int (n_actions env))"
  using shape_okD[OF assms(1)] assms(2) by (auto simp: in_range_def)

lemma in_range_backward_masks:
  assumes "shape_ok env st" "length actions = length (states st)"
  shows "in_range (backward_masks st) (already_dones st) actions =
     (\<forall>i<length actions. \<not> already_dones st ! i \<longrightarrow>
        0 \<le> actions ! i \<and> actions ! i < int (ndim env))"
  using shape_okD[OF assms(1)] assms(2) by (auto simp: in_range_def)

lemma allowed_iff:
  assumes "length dn = length actions"
  shows "allowed tbl dn actions =
     (\<not> (\<exists>i<length actions. \<not> dn ! i \<and> \<not> tbl ! i ! nat (actions ! i)))"
  using assms by (auto simp: allowed_def)

text \<open>
  C2, as the code has it. On a batch of the right shapes and with one action per
  element, \<^verbatim>\<open>step\<close> raises \<^verbatim>\<open>ValueError\<close> exactly when the action of every element
  that is not done is a column of the forward mask and the mask is false at the action
  of one of them; it raises \<^verbatim>\<open>RuntimeError\<close>, the error of \<^verbatim>\<open>torch.gather\<close>, exactly
  when the action of an element that is not done is no column of the mask; it raises
  nothing else, and whenever it raises, the environment's batch is the one before the
  call. \<^verbatim>\<open>backward_step\<close> does the same with the backward mask and its \<^verbatim>\<open>ndim\<close>
  columns; it works on a copy, so its argument is never changed.
\<close>

theorem invalid_action_errors:
  assumes "shape_ok env st" and "length actions = length (states st)"
  shows
   "((\<exists>st'. step env st actions = Inl (ValueError, st')) \<longleftrightarrow>
       (\<forall>i<length actions. \<not> already_dones st ! i \<longrightarrow>
          0 \<le> actions ! i \<and> actions ! i < int (n_actions env)) \<and>
       (\<exists>i<length actions. \<not> already_dones st ! i \<and> \<not> masks st ! i ! nat (actions ! i))) \<and>
    ((\<exists>st'. step env st actions = Inl (RuntimeError, st')) \<longleftrightarrow>
       (\<exists>i<length actions. \<not> already_dones st ! i \<and>
          \<not> (0 \<le> actions ! i \<and> actions ! i < int (n_actions env)))) \<and>
    (\<forall>e st'. step env st actions = Inl (e, st') \<longrightarrow>
       st' = st \<and> (e = ValueError \<or> e = RuntimeError)) \<and>
    (backward_step env st actions = Inl ValueError \<longleftrightarrow>
       (\<forall>i<length actions. \<not> already_dones st ! i \<longrightarrow>
          0 \<le> actions ! i \<and> actions ! i < int (ndim env)) \<and>
       (\<exists>i<length actions. \<not> already_dones st ! i \<and>
          \<not> backward_masks st ! i ! nat (actions ! i))) \<and>
    (backward_step env st actions = Inl RuntimeError \<longleftrightarrow>
       (\<exists>i<length actions. \<not> already_dones st ! i \<and>
          \<not> (0 \<le> actions ! i \<and> actions ! i < int (ndim env)))) \<and>
    (\<forall>e. backward_step env st actions = Inl e \<longrightarrow> e = ValueError \<or> e = RuntimeError)"
proof -
  have len: "length (already_dones st) = length actions"
    using shape_okD(3)[OF assms(1)] assms(2) by simp
  note r = in_range_masks[OF assms] and rb = in_range_backward_masks[OF assms]
  note a = allowed_iff[OF len, of "masks st"] and ab = allowed_iff[OF len, of "backward_masks st"]
  have s: "step env st actions =
     (if \<not> in_range (masks st) (already_dones st) actions then Inl (RuntimeError, st)
      else if \<not> allowed (masks st) (already_dones st) actions then Inl (ValueError, st)
      else Inr (update_masks env
                  (st\<lparr>already_dones := step_dones env st actions,
                     states := moved 1 (step_dones env st actions) (states st) actions\<rparr>),
                step_dones env st actions))"
    by (rule step_eq[OF assms])
  have b: "backward_step env st actions =
     (if \<not> in_range (backward_masks st) (already_dones st) actions then Inl RuntimeError
      else if \<not> allowed (backward_masks st) (already_dones st) actions then Inl ValueError
      else Inr (update_masks env
                  (st\<lparr>states := moved (- 1) (already_dones st) (states st) actions,
                     already_dones := backward_dones st actions\<rparr>),
                backward_dones st actions))"
    by (rule backward_step_eq[OF assms])
  have 1: "(\<exists>st'. step env st actions = Inl (ValueError, st')) \<longleftrightarrow>
       in_range (masks st) (already_dones st) actions \<and> \<not> allowed (masks st) (already_dones st) actions"
    by (simp add: s)
  have 2: "(\<exists>st'. step env st actions = Inl (RuntimeError, st')) \<longleftrightarrow>
       \<not> in_range (masks st) (already_dones st) actions"
    by (simp add: s)
  have 3: "\<forall>e st'. step env st actions = Inl (e, st') \<longrightarrow>
       st' = st \<and> (e = ValueError \<or> e = RuntimeError)"
    by (auto simp: s split: if_splits)
  have 4: "backward_step env st actions = Inl ValueError \<longleftrightarrow>
       in_range (backward_masks st) (already_dones st) actions \<and>
       \<not> allowed (backward_masks st) (already_dones st) actions"
    by (simp add: b)
  have 5: "backward_step env st actions = Inl RuntimeError \<longleftrightarrow>
       \<not> in_range (backward_masks st) (already_dones st) actions"
    by (simp add: b)
  have 6: "\<forall>e. backward_step env st actions = Inl e \<longrightarrow> e = ValueError \<or> e = RuntimeError"
    by (auto simp: b split: if_splits)
  show ?thesis
    using 1 2 3 4 5 6 unfolding r rb a ab by blast
qed

text \<open>
  The theorem at the last call of the demo: the shapes are right, the call raises
  \<^verbatim>\<open>ValueError\<close>, and so an element that is not done has a false mask entry at its
  action.
\<close>

theorem invalid_action_errors_witness:
  "shape_ok demo_env (demo_batch [[2, 1], [0, 1], [0, 2]] [False, True, True]) \<and>
   length [0, 1, 1 :: int] = length (states (demo_batch [[2, 1], [0, 1], [0, 2]] [False, True, True])) \<and>
   step demo_env (demo_batch [[2, 1], [0, 1], [0, 2]] [False, True, True]) [0, 1, 1] =
     Inl (ValueError, demo_batch [[2, 1], [0, 1], [0, 2]] [False, True, True]) \<and>
   (\<exists>i<length [0, 1, 1 :: int].
      \<not> already_dones (demo_batch [[2, 1], [0, 1], [0, 2]] [False, True, True]) ! i \<and>
      \<not> masks (demo_batch [[2, 1], [0, 1], [0, 2]] [False, True, True]) ! i ! nat ([0, 1, 1] ! i))"
proof -
  let ?b = "demo_batch [[2, 1], [0, 1], [0, 2]] [False, True, True]"
  have h1: "shape_ok demo_env ?b" by code_simp
  have h2: "length [0, 1, 1 :: int] = length (states ?b)" by code_simp
  have s: "step demo_env ?b [0, 1, 1] = Inl (ValueError, ?b)" by code_simp
  from invalid_action_errors[OF h1 h2] s h1 h2 show ?thesis by blast
qed

text \<open>
  C2 as stated fails in two ways. The demo's own backward call with the actions
  \<^verbatim>\<open>[1, 1, 2]\<close> raises \<^verbatim>\<open>RuntimeError\<close> although no mask entry is false at an action:
  the backward mask has no column 2. And a forward call in which element 0 has a false
  mask entry at its action and element 1 an action beyond the columns raises
  \<^verbatim>\<open>RuntimeError\<close>, not \<^verbatim>\<open>ValueError\<close>.
\<close>

theorem invalid_action_counterexample:
  "backward_step demo_env (demo_batch [[2, 1], [0, 1], [0, 2]] [False, False, False]) [1, 1, 2] =
     Inl RuntimeError \<and>
   backward_masks (demo_batch [[2, 1], [0, 1], [0, 2]] [False, False, False]) =
     [[True, True], [False, True], [False, True]] \<and>
   step demo_env (demo_batch [[2, 0], [0, 0], [0, 0]] [False, False, False]) [0, 7, 0] =
     Inl (RuntimeError, demo_batch [[2, 0], [0, 0], [0, 0]] [False, False, False]) \<and>
   masks (demo_batch [[2, 0], [0, 0], [0, 0]] [False, False, False]) ! 0 ! 0 = False"
  by code_simp

section \<open>Elements that are done\<close>

lemma bool_index_update_masked:
  "i < length ms \<Longrightarrow> \<not> ms ! i \<Longrightarrow> bool_index (xs[i := a]) ms = bool_index xs ms"
proof (induction xs ms arbitrary: i rule: bool_index.induct)
  case (1 x xs m ms)
  then show ?case by (cases i) auto
qed simp_all

lemma length_bool_assign: "length (bool_assign xs ms vs) = length xs"
  by (induction xs ms vs rule: bool_assign.induct) (auto split: list.splits)

lemma nth_bool_assign_masked:
  "i < length xs \<Longrightarrow> i < length ms \<Longrightarrow> \<not> ms ! i \<Longrightarrow> bool_assign xs ms vs ! i = xs ! i"
proof (induction xs ms vs arbitrary: i rule: bool_assign.induct)
  case (1 x xs m ms vs)
  then show ?case by (cases i) (auto split: list.splits)
qed simp_all

lemma map2_or_update:
  "i < length ds \<Longrightarrow> ds ! i \<Longrightarrow>
   map2 (\<or>) ds (map f (actions[i := a])) = map2 (\<or>) ds (map f actions)"
proof (induction ds arbitrary: i actions)
  case Nil
  then show ?case by simp
next
  case (Cons d ds)
  show ?case
  proof (cases actions)
    case Nil
    then show ?thesis by simp
  next
    case (Cons b bs)
    with Cons.prems Cons.IH show ?thesis by (cases i) auto
  qed
qed

lemma step_ignores_done:
  assumes "i < length (already_dones st)" "already_dones st ! i"
  shows "step env st (actions[i := a]) = step env st actions"
proof (cases "length actions = length (already_dones st)")
  case False
  then show ?thesis by (simp add: step_def)
next
  case True
  let ?D = "map2 (\<or>) (already_dones st) (map (\<lambda>a. a = int (n_actions env) - 1) actions)"
  have nd: "i < length (map Not (already_dones st))" "\<not> map Not (already_dones st) ! i"
    using assms by simp_all
  have D: "i < length (map Not ?D)" "\<not> map Not ?D ! i"
    using assms True by simp_all
  have 1: "bool_index (actions[i := a]) (map Not (already_dones st)) =
           bool_index actions (map Not (already_dones st))"
    by (rule bool_index_update_masked[OF nd])
  have 2: "map2 (\<or>) (already_dones st) (map (\<lambda>a. a = int (n_actions env) - 1) (actions[i := a])) = ?D"
    by (rule map2_or_update[OF assms])
  have 3: "bool_index (actions[i := a]) (map Not ?D) = bool_index actions (map Not ?D)"
    by (rule bool_index_update_masked[OF D])
  show ?thesis
    unfolding step_def Let_def length_list_update 1 2 3 ..
qed

lemma backward_step_ignores_done:
  assumes "i < length (already_dones st)" "already_dones st ! i"
  shows "backward_step env st (actions[i := a]) = backward_step env st actions"
proof -
  have nd: "i < length (map Not (already_dones st))" "\<not> map Not (already_dones st) ! i"
    using assms by simp_all
  have 1: "bool_index (actions[i := a]) (map Not (already_dones st)) =
           bool_index actions (map Not (already_dones st))"
    by (rule bool_index_update_masked[OF nd])
  show ?thesis
    unfolding backward_step_def Let_def length_list_update 1 ..
qed

lemma step_InrD:
  assumes s: "step env st actions = Inr (st', dn)"
  defines "D \<equiv> map2 (\<or>) (already_dones st) (map (\<lambda>a. a = int (n_actions env) - 1) actions)"
  shows "length actions = length (already_dones st)"
    and "length (states st) = length D"
    and "dn = D"
    and "\<exists>updated. st' = update_masks env
            (st\<lparr>already_dones := D, states := bool_assign (states st) (map Not D) updated\<rparr>)"
proof -
  have c1: "\<not> (length (masks st) \<noteq> length (already_dones st) \<or>
               length actions \<noteq> length (already_dones st))"
  proof
    assume "length (masks st) \<noteq> length (already_dones st) \<or>
               length actions \<noteq> length (already_dones st)"
    then have "step env st actions = Inl (IndexError, st)"
      unfolding step_def by (rule if_P)
    with s show False by simp
  qed
  then show len: "length actions = length (already_dones st)" by simp
  obtain g where g: "gather (bool_index (masks st) (map Not (already_dones st)))
                       (bool_index actions (map Not (already_dones st))) = Inr g"
    using s c1 by (cases "gather (bool_index (masks st) (map Not (already_dones st)))
                       (bool_index actions (map Not (already_dones st)))")
      (simp_all add: step_def Let_def)
  have v: "list_all id g"
    using s c1 g by (cases "list_all id g") (simp_all add: step_def Let_def)
  have s2: "step env st actions =
     (if length (states st) \<noteq> length D then Inl (IndexError, st\<lparr>already_dones := D\<rparr>)
      else (case rows_add (bool_index (states st) (map Not D)) (bool_index actions (map Not D)) 1 of
              Inl e \<Rightarrow> Inl (e, st\<lparr>already_dones := D\<rparr>)
            | Inr updated \<Rightarrow>
                Inr (update_masks env
                       (st\<lparr>already_dones := D,
                          states := bool_assign (states st) (map Not D) updated\<rparr>), D)))"
    using c1 g v by (simp add: step_def Let_def D_def cong: sum.case_cong)
  show l2: "length (states st) = length D"
    using s unfolding s2 by (cases "length (states st) = length D") simp_all
  obtain updated where u: "rows_add (bool_index (states st) (map Not D))
                             (bool_index actions (map Not D)) 1 = Inr updated"
    using s l2 unfolding s2
    by (cases "rows_add (bool_index (states st) (map Not D)) (bool_index actions (map Not D)) 1")
      simp_all
  from s l2 u show "dn = D" unfolding s2 by simp
  from s l2 u show "\<exists>updated. st' = update_masks env
            (st\<lparr>already_dones := D, states := bool_assign (states st) (map Not D) updated\<rparr>)"
    unfolding s2 by auto
qed

lemma backward_step_InrD:
  assumes s: "backward_step env st actions = Inr (st', dn)"
  defines "nd \<equiv> map Not (already_dones st)"
  shows "length actions = length (already_dones st)"
    and "length (states st) = length (already_dones st)"
    and "\<exists>updated. st' = update_masks env
            (st\<lparr>states := bool_assign (states st) nd updated,
               already_dones := map2 (\<or>) (already_dones st)
                 (map (\<lambda>row. sum_list row = 0) (bool_assign (states st) nd updated))\<rparr>) \<and>
          dn = map2 (\<or>) (already_dones st)
                 (map (\<lambda>row. sum_list row = 0) (bool_assign (states st) nd updated))"
proof -
  have c1: "\<not> (length (backward_masks st) \<noteq> length (already_dones st) \<or>
               length actions \<noteq> length (already_dones st))"
  proof
    assume "length (backward_masks st) \<noteq> length (already_dones st) \<or>
               length actions \<noteq> length (already_dones st)"
    then have "backward_step env st actions = Inl IndexError"
      unfolding backward_step_def by (rule if_P)
    with s show False by simp
  qed
  then show len: "length actions = length (already_dones st)" by simp
  obtain g where g: "gather (bool_index (backward_masks st) nd) (bool_index actions nd) = Inr g"
    using s c1 by (cases "gather (bool_index (backward_masks st) nd) (bool_index actions nd)")
      (simp_all add: backward_step_def Let_def nd_def)
  have v: "list_all id g"
    using s c1 g by (cases "list_all id g") (simp_all add: backward_step_def Let_def nd_def)
  have s2: "backward_step env st actions =
     (if length (states st) \<noteq> length nd then Inl IndexError
      else (case rows_add (bool_index (states st) nd) (bool_index actions nd) (- 1) of
              Inl e \<Rightarrow> Inl e
            | Inr updated \<Rightarrow>
                Inr (update_masks env
                       (st\<lparr>states := bool_assign (states st) nd updated,
                          already_dones := map2 (\<or>) (already_dones st)
                            (map (\<lambda>row. sum_list row = 0) (bool_assign (states st) nd updated))\<rparr>),
                     map2 (\<or>) (already_dones st)
                       (map (\<lambda>row. sum_list row = 0) (bool_assign (states st) nd updated)))))"
    using c1 g v by (simp add: backward_step_def Let_def nd_def cong: sum.case_cong)
  have l2: "length (states st) = length nd"
    using s unfolding s2 by (cases "length (states st) = length nd") simp_all
  then show "length (states st) = length (already_dones st)" by (simp add: nd_def)
  obtain updated where u: "rows_add (bool_index (states st) nd) (bool_index actions nd) (- 1) = Inr updated"
    using s l2 unfolding s2
    by (cases "rows_add (bool_index (states st) nd) (bool_index actions nd) (- 1)") simp_all
  from s l2 u show "\<exists>updated. st' = update_masks env
            (st\<lparr>states := bool_assign (states st) nd updated,
               already_dones := map2 (\<or>) (already_dones st)
                 (map (\<lambda>row. sum_list row = 0) (bool_assign (states st) nd updated))\<rparr>) \<and>
          dn = map2 (\<or>) (already_dones st)
                 (map (\<lambda>row. sum_list row = 0) (bool_assign (states st) nd updated))"
    unfolding s2 by auto
qed

lemma step_keeps_done:
  assumes i: "i < length (already_dones st)" "already_dones st ! i"
    and s: "step env st actions = Inr (st', dn)"
  shows "states st' ! i = states st ! i \<and> already_dones st' ! i \<and> dn ! i"
proof -
  let ?D = "map2 (\<or>) (already_dones st) (map (\<lambda>a. a = int (n_actions env) - 1) actions)"
  note d = step_InrD[OF s]
  from d(4) obtain updated where
    st': "st' = update_masks env (st\<lparr>already_dones := ?D,
             states := bool_assign (states st) (map Not ?D) updated\<rparr>)" by blast
  have Di: "?D ! i" "i < length ?D" using i d(1) by simp_all
  then have "bool_assign (states st) (map Not ?D) updated ! i = states st ! i"
    using d(2) by (intro nth_bool_assign_masked) simp_all
  with Di show ?thesis by (simp add: st' d(3) update_masks_def)
qed

lemma backward_step_keeps_done:
  assumes i: "i < length (already_dones st)" "already_dones st ! i"
    and s: "backward_step env st actions = Inr (st', dn)"
  shows "states st' ! i = states st ! i \<and> already_dones st' ! i \<and> dn ! i"
proof -
  let ?nd = "map Not (already_dones st)"
  note d = backward_step_InrD[OF s]
  from d(3) obtain updated where
    st': "st' = update_masks env
             (st\<lparr>states := bool_assign (states st) ?nd updated,
                already_dones := map2 (\<or>) (already_dones st)
                   (map (\<lambda>row. sum_list row = 0) (bool_assign (states st) ?nd updated))\<rparr>)"
    and dn: "dn = map2 (\<or>) (already_dones st)
                   (map (\<lambda>row. sum_list row = 0) (bool_assign (states st) ?nd updated))"
    by blast
  have "bool_assign (states st) ?nd updated ! i = states st ! i"
    using i d(2) by (intro nth_bool_assign_masked) simp_all
  moreover have "dn ! i"
    using i d(2) by (simp add: dn length_bool_assign)
  ultimately show ?thesis by (simp add: st' dn update_masks_def)
qed

text \<open>
  C4. In \<^verbatim>\<open>step\<close> and in \<^verbatim>\<open>backward_step\<close>, the action of an element that is already
  done plays no part: with any other value in its place, out of range or not, the call
  has the same outcome, so it is never validated and never makes the call raise. When
  the call succeeds, the element keeps its state and stays done, in the batch and in
  the returned done vector; the stop action on a done element is one such value.
\<close>

theorem done_elements_frame:
  assumes "i < length (already_dones st)" and "already_dones st ! i"
  shows "step env st (actions[i := a]) = step env st actions \<and>
         backward_step env st (actions[i := a]) = backward_step env st actions \<and>
         (\<forall>st' dn. step env st actions = Inr (st', dn) \<longrightarrow>
            states st' ! i = states st ! i \<and> already_dones st' ! i \<and> dn ! i) \<and>
         (\<forall>st' dn. backward_step env st actions = Inr (st', dn) \<longrightarrow>
            states st' ! i = states st ! i \<and> already_dones st' ! i \<and> dn ! i)"
  using step_ignores_done[OF assms] backward_step_ignores_done[OF assms]
    step_keeps_done[OF assms] backward_step_keeps_done[OF assms]
  by blast

text \<open>
  The theorem at two calls of the demo, with the action 43 for element 1, which is
  done: the third forward call, and the backward call \<^verbatim>\<open>[0, 43, 1]\<close>.
\<close>

theorem done_elements_frame_witness:
  "1 < length (already_dones (demo_batch [[2, 0], [0, 1], [0, 2]] [False, True, False])) \<and>
   already_dones (demo_batch [[2, 0], [0, 1], [0, 2]] [False, True, False]) ! 1 \<and>
   step demo_env (demo_batch [[2, 0], [0, 1], [0, 2]] [False, True, False]) ([1, 1, 2][1 := 43]) =
     Inr (demo_batch [[2, 1], [0, 1], [0, 2]] [False, True, True], [False, True, True]) \<and>
   backward_step demo_env (demo_batch [[2, 0], [0, 0], [0, 1]] [False, True, False])
       ([0, 1, 1][1 := 43]) =
     Inr (demo_batch [[1, 0], [0, 0], [0, 0]] [False, True, True], [False, True, True])"
proof -
  let ?b = "demo_batch [[2, 0], [0, 1], [0, 2]] [False, True, False]"
  let ?c = "demo_batch [[2, 0], [0, 0], [0, 1]] [False, True, False]"
  have b: "1 < length (already_dones ?b)" "already_dones ?b ! 1" by code_simp+
  have c: "1 < length (already_dones ?c)" "already_dones ?c ! 1" by code_simp+
  have sb: "step demo_env ?b [1, 1, 2] =
      Inr (demo_batch [[2, 1], [0, 1], [0, 2]] [False, True, True], [False, True, True])"
    by code_simp
  have sc: "backward_step demo_env ?c [0, 1, 1] =
      Inr (demo_batch [[1, 0], [0, 0], [0, 0]] [False, True, True], [False, True, True])"
    by code_simp
  from done_elements_frame[OF b, of demo_env "[1, 1, 2]" 43]
    done_elements_frame[OF c, of demo_env "[0, 1, 1]" 43] sb sc b
  show ?thesis by simp
qed

section \<open>Masks\<close>

lemma make_masks_nth:
  "i < length sts \<Longrightarrow>
   make_masks env sts ! i = map (\<lambda>c. c \<noteq> height env - 1) (sts ! i) @ [True]"
  by (simp add: make_masks_def comp_def)

lemma make_backward_masks_nth:
  "i < length sts \<Longrightarrow> make_backward_masks env sts ! i = map (\<lambda>c. c \<noteq> 0) (sts ! i)"
  by (simp add: make_backward_masks_def comp_def)

lemma length_make_masks [simp]:
  "length (make_masks env sts) = length sts" "length (make_backward_masks env sts) = length sts"
  by (simp_all add: make_masks_def make_backward_masks_def)

lemma masks_current_update_masks: "masks_current env (update_masks env st)"
  by (simp add: masks_current_def update_masks_def)

lemma masks_current_post_init: "masks_current env (post_init env sts)"
  by (simp add: masks_current_def post_init_def)

lemma step_masks_current:
  "step env st actions = Inr (st', dn) \<Longrightarrow> masks_current env st'"
  using step_InrD(4)[of env st actions st' dn] by (auto simp: masks_current_update_masks)

lemma backward_step_masks_current:
  "backward_step env st actions = Inr (st', dn) \<Longrightarrow> masks_current env st'"
  using backward_step_InrD(3)[of env st actions st' dn] by (auto simp: masks_current_update_masks)

lemma masks_entries:
  assumes "i < length sts"
  shows "length (make_masks env sts ! i) = length (sts ! i) + 1"
    and "make_masks env sts ! i ! length (sts ! i) = True"
    and "length (make_backward_masks env sts ! i) = length (sts ! i)"
    and "d < length (sts ! i) \<Longrightarrow> make_masks env sts ! i ! d = (sts ! i ! d \<noteq> height env - 1)"
    and "d < length (sts ! i) \<Longrightarrow> make_backward_masks env sts ! i ! d = (sts ! i ! d \<noteq> 0)"
  using assms by (simp_all add: make_masks_nth make_backward_masks_nth nth_append)

text \<open>
  C5, as the code has it. After every successful \<^verbatim>\<open>step\<close> and \<^verbatim>\<open>backward_step\<close>, and
  after the construction of a batch, both masks are the ones \<^verbatim>\<open>make_masks\<close> and
  \<^verbatim>\<open>make_backward_masks\<close> give for the current states. The forward mask has one column
  more than a state has coordinates, and that last column, the stop action, is true;
  its column \<^verbatim>\<open>d\<close> is true iff coordinate \<^verbatim>\<open>d\<close> differs from \<^verbatim>\<open>height - 1\<close>. The backward
  mask has one column per coordinate, true iff the coordinate differs from 0. For a
  coordinate that is at most \<^verbatim>\<open>height - 1\<close> the first is \<^verbatim>\<open>coordinate < height - 1\<close>, for
  a coordinate that is not negative the second is \<^verbatim>\<open>coordinate > 0\<close>.
\<close>

theorem masks_follow_states:
  "(\<forall>st' dn. step env st actions = Inr (st', dn) \<longrightarrow> masks_current env st') \<and>
   (\<forall>st' dn. backward_step env st actions = Inr (st', dn) \<longrightarrow> masks_current env st') \<and>
   masks_current env (post_init env sts) \<and>
   length (make_masks env sts) = length sts \<and>
   length (make_backward_masks env sts) = length sts \<and>
   (\<forall>i<length sts.
      length (make_masks env sts ! i) = length (sts ! i) + 1 \<and>
      make_masks env sts ! i ! length (sts ! i) = True \<and>
      length (make_backward_masks env sts ! i) = length (sts ! i) \<and>
      (\<forall>d<length (sts ! i).
         make_masks env sts ! i ! d = (sts ! i ! d \<noteq> height env - 1) \<and>
         make_backward_masks env sts ! i ! d = (sts ! i ! d \<noteq> 0) \<and>
         (sts ! i ! d \<le> height env - 1 \<longrightarrow>
            make_masks env sts ! i ! d = (sts ! i ! d < height env - 1)) \<and>
         (0 \<le> sts ! i ! d \<longrightarrow> make_backward_masks env sts ! i ! d = (0 < sts ! i ! d))))"
proof -
  have "\<forall>i<length sts.
      length (make_masks env sts ! i) = length (sts ! i) + 1 \<and>
      make_masks env sts ! i ! length (sts ! i) = True \<and>
      length (make_backward_masks env sts ! i) = length (sts ! i) \<and>
      (\<forall>d<length (sts ! i).
         make_masks env sts ! i ! d = (sts ! i ! d \<noteq> height env - 1) \<and>
         make_backward_masks env sts ! i ! d = (sts ! i ! d \<noteq> 0) \<and>
         (sts ! i ! d \<le> height env - 1 \<longrightarrow>
            make_masks env sts ! i ! d = (sts ! i ! d < height env - 1)) \<and>
         (0 \<le> sts ! i ! d \<longrightarrow> make_backward_masks env sts ! i ! d = (0 < sts ! i ! d)))"
  proof (intro allI impI conjI)
    fix i d assume i: "i < length sts" and d: "d < length (sts ! i)"
    note m = masks_entries[OF i, where env = env]
    show "make_masks env sts ! i ! d = (sts ! i ! d \<noteq> height env - 1)" by (rule m(4)[OF d])
    show "make_backward_masks env sts ! i ! d = (sts ! i ! d \<noteq> 0)" by (rule m(5)[OF d])
    show "make_masks env sts ! i ! d = (sts ! i ! d < height env - 1)"
      if "sts ! i ! d \<le> height env - 1" using that m(4)[OF d] by auto
    show "make_backward_masks env sts ! i ! d = (0 < sts ! i ! d)"
      if "0 \<le> sts ! i ! d" using that m(5)[OF d] by auto
  qed (simp_all add: masks_entries)
  then show ?thesis
    using step_masks_current[of env st actions] backward_step_masks_current[of env st actions]
      masks_current_post_init[of env sts]
    by (simp only: length_make_masks) blast
qed

text \<open>
  The theorem at the first call of the demo: the masks of the batch it returns are
  those of the states \<^verbatim>\<open>[[1, 0], [0, 1], [0, 1]]\<close>.
\<close>

theorem masks_follow_states_witness:
  "step demo_env (reset demo_env) [0, 1, 1] =
     Inr (demo_batch [[1, 0], [0, 1], [0, 1]] [False, False, False], [False, False, False]) \<and>
   masks_current demo_env (demo_batch [[1, 0], [0, 1], [0, 1]] [False, False, False]) \<and>
   masks (demo_batch [[1, 0], [0, 1], [0, 1]] [False, False, False]) =
     [[True, True, True], [True, True, True], [True, True, True]] \<and>
   backward_masks (demo_batch [[1, 0], [0, 1], [0, 1]] [False, False, False]) =
     [[True, False], [False, True], [False, True]]"
proof -
  have s: "step demo_env (reset demo_env) [0, 1, 1] =
     Inr (demo_batch [[1, 0], [0, 1], [0, 1]] [False, False, False], [False, False, False])"
    by code_simp
  have m: "masks (demo_batch [[1, 0], [0, 1], [0, 1]] [False, False, False]) =
     [[True, True, True], [True, True, True], [True, True, True]]"
    "backward_masks (demo_batch [[1, 0], [0, 1], [0, 1]] [False, False, False]) =
     [[True, False], [False, True], [False, True]]"
    by code_simp+
  from masks_follow_states[of demo_env "reset demo_env" "[0, 1, 1]" "[]"] s m
  show ?thesis by blast
qed

text \<open>
  C5 as stated fails on a batch built from a caller's array with a coordinate off the
  grid: with \<^verbatim>\<open>height = 3\<close> the forward mask allows incrementing a coordinate 5 although
  \<^verbatim>\<open>5 < height - 1\<close> is false, and the backward mask allows decrementing a coordinate
  \<^verbatim>\<open>-1\<close> although \<^verbatim>\<open>-1 > 0\<close> is false.
\<close>

theorem masks_counterexample:
  "StatesBatch_of demo_env [[5, 0]] = Inr (post_init demo_env [[5, 0]]) \<and>
   make_masks demo_env [[5, 0]] ! 0 ! 0 = True \<and>
   masks (post_init demo_env [[5, 0]]) ! 0 ! 0 = True \<and>
   \<not> (5 < height demo_env - 1) \<and>
   StatesBatch_of demo_env [[- 1, 0]] = Inr (post_init demo_env [[- 1, 0]]) \<and>
   make_backward_masks demo_env [[- 1, 0]] ! 0 ! 0 = True \<and>
   backward_masks (post_init demo_env [[- 1, 0]]) ! 0 ! 0 = True \<and>
   \<not> (0 < (- 1 :: int))"
  by code_simp

section \<open>Successful transitions, row by row\<close>

lemma length_moved:
  "length actions = length sts \<Longrightarrow> length frozen = length sts \<Longrightarrow>
   length (moved v frozen sts actions) = length sts"
  by (simp add: moved_def)

lemma moved_nth:
  "i < length sts \<Longrightarrow> length actions = length sts \<Longrightarrow> length frozen = length sts \<Longrightarrow>
   moved v frozen sts actions ! i =
     (if frozen ! i then sts ! i else index_upd v (sts ! i) (actions ! i))"
  by (simp add: moved_def)

lemma index_upd_in_row:
  "0 \<le> a \<Longrightarrow> index_upd v row a = row[nat a := row ! nat a + v]"
  by (simp add: index_upd_def)

lemma length_index_upd [simp]: "length (index_upd v row a) = length row"
  by (simp add: index_upd_def Let_def)

lemma step_success:
  assumes ok: "shape_ok env st" and s: "step env st actions = Inr (st', dn)"
  shows "length actions = length (states st)"
    and "in_range (masks st) (already_dones st) actions"
    and "allowed (masks st) (already_dones st) actions"
    and "dn = step_dones env st actions"
    and "st' = update_masks env
            (st\<lparr>already_dones := step_dones env st actions,
               states := moved 1 (step_dones env st actions) (states st) actions\<rparr>)"
proof -
  show len: "length actions = length (states st)"
    using step_InrD(1)[OF s] shape_okD(3)[OF ok] by simp
  note e = step_eq[OF ok len]
  show r: "in_range (masks st) (already_dones st) actions"
    using s unfolding e by (cases "in_range (masks st) (already_dones st) actions") simp_all
  show a: "allowed (masks st) (already_dones st) actions"
    using s r unfolding e by (cases "allowed (masks st) (already_dones st) actions") simp_all
  from s r a show "dn = step_dones env st actions" unfolding e by auto
  from s r a show "st' = update_masks env
            (st\<lparr>already_dones := step_dones env st actions,
               states := moved 1 (step_dones env st actions) (states st) actions\<rparr>)"
    unfolding e by auto
qed

lemma backward_step_success:
  assumes ok: "shape_ok env st" and s: "backward_step env st actions = Inr (st', dn)"
  shows "length actions = length (states st)"
    and "in_range (backward_masks st) (already_dones st) actions"
    and "allowed (backward_masks st) (already_dones st) actions"
    and "dn = backward_dones st actions"
    and "st' = update_masks env
            (st\<lparr>states := moved (- 1) (already_dones st) (states st) actions,
               already_dones := backward_dones st actions\<rparr>)"
proof -
  show len: "length actions = length (states st)"
    using backward_step_InrD(1)[OF s] shape_okD(3)[OF ok] by simp
  note e = backward_step_eq[OF ok len]
  show r: "in_range (backward_masks st) (already_dones st) actions"
    using s unfolding e
    by (cases "in_range (backward_masks st) (already_dones st) actions") simp_all
  show a: "allowed (backward_masks st) (already_dones st) actions"
    using s r unfolding e
    by (cases "allowed (backward_masks st) (already_dones st) actions") simp_all
  from s r a show "dn = backward_dones st actions" unfolding e by auto
  from s r a show "st' = update_masks env
            (st\<lparr>states := moved (- 1) (already_dones st) (states st) actions,
               already_dones := backward_dones st actions\<rparr>)"
    unfolding e by auto
qed

lemma shape_ok_update_masks:
  assumes "length dn = length sts" "list_all (\<lambda>row. length row = ndim env) sts"
  shows "shape_ok env (update_masks env (st\<lparr>already_dones := dn, states := sts\<rparr>))"
  using assms
  by (simp add: shape_ok_def update_masks_def make_masks_def make_backward_masks_def
      list_all_iff n_actions_def)

lemma rows_moved:
  assumes "list_all (\<lambda>row. length row = n) sts" "length actions = length sts"
    "length frozen = length sts"
  shows "list_all (\<lambda>row. length row = n) (moved v frozen sts actions)"
  using assms by (simp add: list_all_length length_moved moved_nth)

lemma length_step_dones:
  "length actions = length (already_dones st) \<Longrightarrow>
   length (step_dones env st actions) = length (already_dones st)"
  by (simp add: step_dones_def)

lemma step_dones_nth:
  "i < length (already_dones st) \<Longrightarrow> length actions = length (already_dones st) \<Longrightarrow>
   step_dones env st actions ! i =
     (already_dones st ! i \<or> actions ! i = int (n_actions env) - 1)"
  by (simp add: step_dones_def)

lemma length_backward_dones:
  "length actions = length (states st) \<Longrightarrow> length (already_dones st) = length (states st) \<Longrightarrow>
   length (backward_dones st actions) = length (states st)"
  by (simp add: backward_dones_def length_moved)

lemma step_shape_ok:
  assumes ok: "shape_ok env st" and s: "step env st actions = Inr (st', dn)"
  shows "shape_ok env st'"
proof -
  note d = step_success[OF ok s] and sh = shape_okD[OF ok]
  have l: "length (step_dones env st actions) = length (states st)"
    using d(1) sh(3) by (simp add: length_step_dones)
  have rows: "list_all (\<lambda>row. length row = ndim env) (states st)"
    using ok by (simp add: shape_ok_def)
  show ?thesis
    unfolding d(5)
    by (rule shape_ok_update_masks)
      (simp_all add: l length_moved d(1) rows_moved[OF rows d(1) l])
qed

lemma backward_step_shape_ok:
  assumes ok: "shape_ok env st" and s: "backward_step env st actions = Inr (st', dn)"
  shows "shape_ok env st'"
proof -
  note d = backward_step_success[OF ok s] and sh = shape_okD[OF ok]
  have rows: "list_all (\<lambda>row. length row = ndim env) (states st)"
    using ok by (simp add: shape_ok_def)
  have "shape_ok env (update_masks env
            (st\<lparr>already_dones := backward_dones st actions,
               states := moved (- 1) (already_dones st) (states st) actions\<rparr>))"
    by (rule shape_ok_update_masks)
      (simp_all add: length_backward_dones length_moved d(1) sh(3) rows_moved[OF rows d(1) sh(3)])
  moreover have "st\<lparr>already_dones := backward_dones st actions,
               states := moved (- 1) (already_dones st) (states st) actions\<rparr> =
      st\<lparr>states := moved (- 1) (already_dones st) (states st) actions,
               already_dones := backward_dones st actions\<rparr>"
    by (cases st) simp
  ultimately show ?thesis unfolding d(5) by simp
qed

section \<open>The grid is never left\<close>

lemma states_update_masks [simp]:
  "states (update_masks env st) = states st"
  "already_dones (update_masks env st) = already_dones st"
  by (simp_all add: update_masks_def)

lemma step_moves:
  assumes ok: "shape_ok env st" and s: "step env st actions = Inr (st', dn)"
    and i: "i < length (states st)"
  shows "length (states st') = length (states st)"
    and "dn ! i \<Longrightarrow> states st' ! i = states st ! i"
    and "\<not> dn ! i \<Longrightarrow>
           \<not> already_dones st ! i \<and> 0 \<le> actions ! i \<and> nat (actions ! i) < ndim env \<and>
           masks st ! i ! nat (actions ! i) \<and>
           states st' ! i = (states st ! i)[nat (actions ! i) :=
                               states st ! i ! nat (actions ! i) + 1]"
proof -
  note d = step_success[OF ok s] and sh = shape_okD[OF ok]
  have l: "length (step_dones env st actions) = length (states st)"
    using d(1) sh(3) by (simp add: length_step_dones)
  have st': "states st' = moved 1 dn (states st) actions"
    by (simp add: d(5) d(4))
  show "length (states st') = length (states st)"
    using l d(1) by (simp add: st' d(4) length_moved)
  have nth: "states st' ! i = (if dn ! i then states st ! i
                               else index_upd 1 (states st ! i) (actions ! i))"
    using i l d(1) by (simp add: st' d(4) moved_nth)
  show "states st' ! i = states st ! i" if "dn ! i" using that nth by simp
  show "\<not> already_dones st ! i \<and> 0 \<le> actions ! i \<and> nat (actions ! i) < ndim env \<and>
        masks st ! i ! nat (actions ! i) \<and>
        states st' ! i = (states st ! i)[nat (actions ! i) :=
                            states st ! i ! nat (actions ! i) + 1]" if nd: "\<not> dn ! i"
  proof -
    from nd i sh(3) d(1) have a: "\<not> already_dones st ! i" "actions ! i \<noteq> int (n_actions env) - 1"
      by (simp_all add: d(4) step_dones_nth)
    from d(2) a(1) i sh(3) sh(5)[OF i]
    have r: "0 \<le> actions ! i" "actions ! i < int (n_actions env)"
      by (auto simp: in_range_def)
    with a(2) have lt: "nat (actions ! i) < ndim env" by (simp add: n_actions_def)
    from d(3) a(1) i sh(3) have m: "masks st ! i ! nat (actions ! i)"
      by (auto simp: allowed_def)
    from nth nd r(1) have "states st' ! i = (states st ! i)[nat (actions ! i) :=
                            states st ! i ! nat (actions ! i) + 1]"
      by (simp add: index_upd_in_row)
    with a(1) r(1) lt m show ?thesis by simp
  qed
qed

lemma backward_step_moves:
  assumes ok: "shape_ok env st" and s: "backward_step env st actions = Inr (st', dn)"
    and i: "i < length (states st)"
  shows "length (states st') = length (states st)"
    and "already_dones st ! i \<Longrightarrow> states st' ! i = states st ! i"
    and "\<not> already_dones st ! i \<Longrightarrow>
           0 \<le> actions ! i \<and> nat (actions ! i) < ndim env \<and>
           backward_masks st ! i ! nat (actions ! i) \<and>
           states st' ! i = (states st ! i)[nat (actions ! i) :=
                               states st ! i ! nat (actions ! i) - 1]"
    and "dn ! i = (already_dones st ! i \<or> sum_list (states st' ! i) = 0)"
    and "already_dones st' = dn" and "length dn = length (states st)"
proof -
  note d = backward_step_success[OF ok s] and sh = shape_okD[OF ok]
  have st': "states st' = moved (- 1) (already_dones st) (states st) actions"
    by (simp add: d(5))
  show len: "length (states st') = length (states st)"
    using d(1) sh(3) by (simp add: st' length_moved)
  have nth: "states st' ! i = (if already_dones st ! i then states st ! i
                               else index_upd (- 1) (states st ! i) (actions ! i))"
    using i sh(3) d(1) by (simp add: st' moved_nth)
  show "states st' ! i = states st ! i" if "already_dones st ! i" using that nth by simp
  show "0 \<le> actions ! i \<and> nat (actions ! i) < ndim env \<and>
        backward_masks st ! i ! nat (actions ! i) \<and>
        states st' ! i = (states st ! i)[nat (actions ! i) :=
                            states st ! i ! nat (actions ! i) - 1]" if nd: "\<not> already_dones st ! i"
  proof -
    from d(2) nd i sh(3) sh(6)[OF i]
    have r: "0 \<le> actions ! i" "actions ! i < int (ndim env)"
      by (auto simp: in_range_def)
    from d(3) nd i sh(3) have m: "backward_masks st ! i ! nat (actions ! i)"
      by (auto simp: allowed_def)
    from nth nd r(1) have "states st' ! i = (states st ! i)[nat (actions ! i) :=
                            states st ! i ! nat (actions ! i) - 1]"
      by (simp add: index_upd_in_row)
    with r m show ?thesis by simp
  qed
  show "dn ! i = (already_dones st ! i \<or> sum_list (states st' ! i) = 0)"
    using i sh(3) d(1) by (simp add: d(4) backward_dones_def st' length_moved)
  show "already_dones st' = dn" by (simp add: d(5) d(4))
  show "length dn = length (states st)"
    using sh(3) d(1) by (simp add: d(4) length_backward_dones)
qed

lemma step_length_states:
  assumes "shape_ok env st" and "step env st actions = Inr (st', dn)"
  shows "length (states st') = length (states st)"
  using step_success[OF assms] shape_okD(3)[OF assms(1)]
  by (simp add: length_moved length_step_dones)

lemma backward_step_length_states:
  assumes "shape_ok env st" and "backward_step env st actions = Inr (st', dn)"
  shows "length (states st') = length (states st)"
  using backward_step_success[OF assms] shape_okD(3)[OF assms(1)]
  by (simp add: length_moved)

lemma step_in_grid:
  assumes ok: "shape_ok env st" and mc: "masks_current env st"
    and g: "in_grid env (states st)" and s: "step env st actions = Inr (st', dn)"
  shows "in_grid env (states st')"
  unfolding in_grid_def list_all_length
proof (intro allI impI)
  fix i j assume i': "i < length (states st')" and j': "j < length (states st' ! i)"
  note sh = shape_okD[OF ok]
  from i' have i: "i < length (states st)" using step_length_states[OF ok s] by simp
  note m = step_moves(2,3)[OF ok s i]
  have old: "\<And>k. k < length (states st ! i) \<Longrightarrow>
      0 \<le> states st ! i ! k \<and> states st ! i ! k \<le> height env - 1"
    using g i by (simp add: in_grid_def list_all_length)
  show "0 \<le> states st' ! i ! j \<and> states st' ! i ! j \<le> height env - 1"
  proof (cases "dn ! i")
    case True
    with m(1) j' old show ?thesis by simp
  next
    case False
    from m(2)[OF False] have a: "nat (actions ! i) < ndim env"
      "masks st ! i ! nat (actions ! i)"
      and e: "states st' ! i = (states st ! i)[nat (actions ! i) :=
                            states st ! i ! nat (actions ! i) + 1]" by simp_all
    from a(1) sh(4)[OF i] have k: "nat (actions ! i) < length (states st ! i)" by simp
    from mc a(2) masks_entries(4)[OF i k, of env]
    have "states st ! i ! nat (actions ! i) \<noteq> height env - 1"
      by (simp add: masks_current_def)
    with old[OF k] have "0 \<le> states st ! i ! nat (actions ! i) + 1"
      "states st ! i ! nat (actions ! i) + 1 \<le> height env - 1" by simp_all
    with e j' old[of j] show ?thesis
      by (cases "j = nat (actions ! i)") simp_all
  qed
qed

lemma backward_step_in_grid:
  assumes ok: "shape_ok env st" and mc: "masks_current env st"
    and g: "in_grid env (states st)" and s: "backward_step env st actions = Inr (st', dn)"
  shows "in_grid env (states st')"
  unfolding in_grid_def list_all_length
proof (intro allI impI)
  fix i j assume i': "i < length (states st')" and j': "j < length (states st' ! i)"
  note sh = shape_okD[OF ok]
  from i' have i: "i < length (states st)" using backward_step_length_states[OF ok s] by simp
  note m = backward_step_moves(2,3)[OF ok s i]
  have old: "\<And>k. k < length (states st ! i) \<Longrightarrow>
      0 \<le> states st ! i ! k \<and> states st ! i ! k \<le> height env - 1"
    using g i by (simp add: in_grid_def list_all_length)
  show "0 \<le> states st' ! i ! j \<and> states st' ! i ! j \<le> height env - 1"
  proof (cases "already_dones st ! i")
    case True
    with m(1) j' old show ?thesis by simp
  next
    case False
    from m(2)[OF False] have a: "nat (actions ! i) < ndim env"
      "backward_masks st ! i ! nat (actions ! i)"
      and e: "states st' ! i = (states st ! i)[nat (actions ! i) :=
                            states st ! i ! nat (actions ! i) - 1]" by simp_all
    from a(1) sh(4)[OF i] have k: "nat (actions ! i) < length (states st ! i)" by simp
    from mc a(2) masks_entries(5)[OF i k, of env]
    have "states st ! i ! nat (actions ! i) \<noteq> 0"
      by (simp add: masks_current_def)
    with old[OF k] have "0 \<le> states st ! i ! nat (actions ! i) - 1"
      "states st ! i ! nat (actions ! i) - 1 \<le> height env - 1" by simp_all
    with e j' old[of j] show ?thesis
      by (cases "j = nat (actions ! i)") simp_all
  qed
qed

text \<open>
  C8. On a batch of the right shapes whose masks are those of its states and whose
  coordinates all lie in \<^verbatim>\<open>[0, height - 1]\<close>, every successful \<^verbatim>\<open>step\<close> and every
  successful \<^verbatim>\<open>backward_step\<close> leaves a batch whose coordinates all lie in
  \<^verbatim>\<open>[0, height - 1]\<close>; the shapes and the masks are again as required, so the property
  holds along any sequence of successful calls.
\<close>

theorem grid_never_left:
  assumes "shape_ok env st" and "masks_current env st" and "in_grid env (states st)"
  shows "(\<forall>st' dn. step env st actions = Inr (st', dn) \<longrightarrow>
            in_grid env (states st') \<and> shape_ok env st' \<and> masks_current env st') \<and>
         (\<forall>st' dn. backward_step env st actions = Inr (st', dn) \<longrightarrow>
            in_grid env (states st') \<and> shape_ok env st' \<and> masks_current env st')"
proof (intro conjI allI impI)
  fix st' dn assume s: "step env st actions = Inr (st', dn)"
  show "in_grid env (states st')" by (rule step_in_grid[OF assms s])
  show "shape_ok env st'" by (rule step_shape_ok[OF assms(1) s])
  show "masks_current env st'" by (rule step_masks_current[OF s])
next
  fix st' dn assume s: "backward_step env st actions = Inr (st', dn)"
  show "in_grid env (states st')" by (rule backward_step_in_grid[OF assms s])
  show "shape_ok env st'" by (rule backward_step_shape_ok[OF assms(1) s])
  show "masks_current env st'" by (rule backward_step_masks_current[OF s])
qed

text \<open>
  The theorem at the second call of the demo, where element 0 reaches \<^verbatim>\<open>height - 1\<close> on
  axis 0, and at a backward call from there.
\<close>

theorem grid_never_left_witness:
  "shape_ok demo_env (demo_batch [[1, 0], [0, 1], [0, 1]] [False, False, False]) \<and>
   masks_current demo_env (demo_batch [[1, 0], [0, 1], [0, 1]] [False, False, False]) \<and>
   in_grid demo_env (states (demo_batch [[1, 0], [0, 1], [0, 1]] [False, False, False])) \<and>
   step demo_env (demo_batch [[1, 0], [0, 1], [0, 1]] [False, False, False]) [0, 2, 1] =
     Inr (demo_batch [[2, 0], [0, 1], [0, 2]] [False, True, False], [False, True, False]) \<and>
   in_grid demo_env (states (demo_batch [[2, 0], [0, 1], [0, 2]] [False, True, False])) \<and>
   backward_step demo_env (demo_batch [[1, 0], [0, 1], [0, 1]] [False, False, False]) [0, 1, 1] =
     Inr (demo_batch [[0, 0], [0, 0], [0, 0]] [True, True, True], [True, True, True]) \<and>
   in_grid demo_env (states (demo_batch [[0, 0], [0, 0], [0, 0]] [True, True, True]))"
proof -
  let ?b = "demo_batch [[1, 0], [0, 1], [0, 1]] [False, False, False]"
  have h: "shape_ok demo_env ?b" "masks_current demo_env ?b" "in_grid demo_env (states ?b)"
    by code_simp+
  have s: "step demo_env ?b [0, 2, 1] =
     Inr (demo_batch [[2, 0], [0, 1], [0, 2]] [False, True, False], [False, True, False])"
    by code_simp
  have b: "backward_step demo_env ?b [0, 1, 1] =
     Inr (demo_batch [[0, 0], [0, 0], [0, 0]] [True, True, True], [True, True, True])"
    by code_simp
  from grid_never_left[OF h, of "[0, 2, 1]"] grid_never_left[OF h, of "[0, 1, 1]"] s b h
  show ?thesis by blast
qed

section \<open>Fresh batches\<close>

lemma shape_ok_post_init:
  "list_all (\<lambda>row. length row = ndim env) sts \<Longrightarrow> shape_ok env (post_init env sts)"
  by (simp add: shape_ok_def post_init_def make_masks_def make_backward_masks_def
      list_all_iff n_actions_def)


lemma non_negative_zeros: "non_negative (states (StatesBatch_zeros env))"
  by (simp add: non_negative_def StatesBatch_zeros_def post_init_def list_all_iff)

lemma non_negative_random:
  "randint_range env drawn \<Longrightarrow> non_negative (states (StatesBatch_random env drawn))"
  by (auto simp: non_negative_def StatesBatch_random_def post_init_def randint_range_def
      list_all_iff)

section \<open>State indices\<close>

lemma wrap64_mod: "wrap64 x mod 2 ^ 64 = x mod 2 ^ 64"
proof -
  have "wrap64 x mod 2 ^ 64 = ((x + 2 ^ 63) mod 2 ^ 64 - 2 ^ 63) mod 2 ^ 64"
    by (simp only: wrap64_def)
  also have "\<dots> = (x + 2 ^ 63 - 2 ^ 63) mod 2 ^ 64"
    by (rule mod_diff_left_eq)
  finally show ?thesis by simp
qed

lemma wrap64_cong: "x mod 2 ^ 64 = y mod 2 ^ 64 \<Longrightarrow> wrap64 x = wrap64 y"
proof -
  assume e: "x mod 2 ^ 64 = y mod 2 ^ 64"
  have "(x + 2 ^ 63) mod 2 ^ 64 = (y + 2 ^ 63) mod (2 ^ 64 :: int)"
    using e by (rule mod_add_cong) simp
  then show ?thesis by (simp only: wrap64_def)
qed

lemma wrap64_id: "- (2 ^ 63) \<le> x \<Longrightarrow> x < 2 ^ 63 \<Longrightarrow> wrap64 x = x"
  by (simp add: wrap64_def)

lemma wrapped_sum_mod:
  "sum_list (map2 (\<lambda>b c. wrap64 (b * c)) (map (\<lambda>k. wrap64 (f k)) ks) row) mod 2 ^ 64 =
   sum_list (map2 (\<lambda>b c. b * c) (map f ks) row) mod 2 ^ 64"
proof (induction ks arbitrary: row)
  case Nil
  then show ?case by simp
next
  case (Cons k ks)
  show ?case
  proof (cases row)
    case Nil
    then show ?thesis by simp
  next
    case (Cons c cs)
    have "wrap64 (wrap64 (f k) * c) mod 2 ^ 64 = (wrap64 (f k) * c) mod 2 ^ 64"
      by (rule wrap64_mod)
    also have "\<dots> = (f k * c) mod 2 ^ 64"
      using wrap64_mod[of "f k"] by (rule mod_mult_cong) simp
    finally have h: "wrap64 (wrap64 (f k) * c) mod 2 ^ 64 = (f k * c) mod 2 ^ 64" .
    show ?thesis
      unfolding Cons using mod_add_cong[OF h Cons.IH[of cs]] by simp
  qed
qed

lemma foldl_radix:
  "foldl (\<lambda>acc c. acc * h + c) a cs = a * h ^ length cs + foldl (\<lambda>acc c. acc * h + c) 0 (cs :: int list)"
proof (induction cs arbitrary: a)
  case Nil
  then show ?case by simp
next
  case (Cons c cs)
  show ?case
    using Cons.IH[of "a * h + c"] Cons.IH[of c] by (simp add: algebra_simps)
qed

lemma mixed_radix_Cons:
  "mixed_radix h (c # cs) = c * h ^ length cs + mixed_radix h cs"
  using foldl_radix[of h c cs] by (simp add: mixed_radix_def)

lemma mixed_radix_snoc: "mixed_radix h (row @ [c]) = mixed_radix h row * h + c"
  by (simp add: mixed_radix_def)

lemma mixed_radix_Nil [simp]: "mixed_radix h [] = 0"
  by (simp add: mixed_radix_def)

lemma weighted_sum_mixed_radix:
  "length row = n \<Longrightarrow>
   sum_list (map2 (\<lambda>b c. b * c) (map (\<lambda>k. h ^ k) (rev [0..<n])) row) = mixed_radix h row"
proof (induction row arbitrary: n)
  case Nil
  then show ?case by simp
next
  case (Cons c cs)
  then obtain m where n: "n = Suc m" and m: "length cs = m" by (cases n) auto
  from Cons.IH[OF m] show ?case
    by (simp add: n m mixed_radix_Cons)
qed

lemma mixed_radix_range:
  "list_all (\<lambda>c. 0 \<le> c \<and> c \<le> h - 1) row \<Longrightarrow>
   0 \<le> mixed_radix h row \<and> mixed_radix h row < h ^ length row"
proof (induction row rule: rev_induct)
  case Nil
  then show ?case by simp
next
  case (snoc c row)
  then have c: "0 \<le> c" "c \<le> h - 1" and ih: "0 \<le> mixed_radix h row"
    "mixed_radix h row \<le> h ^ length row - 1"
    by simp_all
  from c have h: "0 \<le> h" by simp
  have "mixed_radix h row * h \<le> (h ^ length row - 1) * h"
    using ih(2) h by (rule mult_right_mono)
  then have "mixed_radix h row * h + c \<le> h ^ length row * h - 1"
    using c by (simp add: algebra_simps)
  moreover have "0 \<le> mixed_radix h row * h + c"
    using ih(1) h c by simp
  ultimately show ?case by (simp add: mixed_radix_snoc mult.commute)
qed

lemma digit_div: "0 \<le> c \<Longrightarrow> c < h \<Longrightarrow> (a * h + c) div h = (a::int)"
  by (simp add: div_pos_pos_trivial)

lemma digit_mod: "0 \<le> c \<Longrightarrow> c < h \<Longrightarrow> (a * h + c) mod h = (c::int)"
  by (simp add: mod_pos_pos_trivial)

lemma div_bound:
  assumes "0 < h" and "k < m * h"
  shows "k div h < (m::int)"
proof -
  have "k div h * h + k mod h = k" by (rule div_mult_mod_eq)
  moreover have "0 \<le> k mod h" using assms(1) by simp
  ultimately have "k div h * h < m * h" using assms(2) by linarith
  then show ?thesis using assms(1) by (simp add: mult_less_cancel_right)
qed

lemma div_nonneg: "0 < h \<Longrightarrow> 0 \<le> k \<Longrightarrow> 0 \<le> k div (h::int)"
  by (simp add: pos_imp_zdiv_nonneg_iff)

lemma mixed_radix_inj:
  "length r = length r' \<Longrightarrow>
   list_all (\<lambda>c. 0 \<le> c \<and> c \<le> h - 1) r \<Longrightarrow> list_all (\<lambda>c. 0 \<le> c \<and> c \<le> h - 1) r' \<Longrightarrow>
   mixed_radix h r = mixed_radix h r' \<Longrightarrow> r = r'"
proof (induction r arbitrary: r' rule: rev_induct)
  case Nil
  then show ?case by simp
next
  case (snoc c r)
  from snoc.prems(1) obtain c' r0 where r': "r' = r0 @ [c']"
    by (cases r' rule: rev_cases) auto
  from snoc.prems r' have len: "length r = length r0"
    and p: "list_all (\<lambda>c. 0 \<le> c \<and> c \<le> h - 1) r" "list_all (\<lambda>c. 0 \<le> c \<and> c \<le> h - 1) r0"
    and c: "0 \<le> c" "c < h" "0 \<le> c'" "c' < h"
    and e: "mixed_radix h r * h + c = mixed_radix h r0 * h + c'"
    by (simp_all add: mixed_radix_snoc)
  from e have "(mixed_radix h r * h + c) div h = (mixed_radix h r0 * h + c') div h"
    and "(mixed_radix h r * h + c) mod h = (mixed_radix h r0 * h + c') mod h"
    by simp_all
  with c have "mixed_radix h r = mixed_radix h r0" and "c = c'"
    by (simp_all add: digit_div digit_mod)
  with snoc.IH[OF len p] r' show ?case by simp
qed

lemma mixed_radix_surj:
  "0 \<le> h \<Longrightarrow> 0 \<le> k \<Longrightarrow> k < h ^ n \<Longrightarrow>
   \<exists>row. length row = n \<and> list_all (\<lambda>c. 0 \<le> c \<and> c \<le> h - 1) row \<and> mixed_radix h row = k"
proof (induction n arbitrary: k)
  case 0
  then show ?case by simp
next
  case (Suc n)
  have h: "0 < h"
  proof (cases "h = 0")
    case True
    with Suc.prems show ?thesis by simp
  next
    case False
    with Suc.prems(1) show ?thesis by simp
  qed
  from Suc.prems h have "0 \<le> k div h" "k div h < h ^ n"
    by (simp_all add: div_nonneg div_bound mult.commute)
  from Suc.IH[OF Suc.prems(1) this] obtain row where row: "length row = n"
    "list_all (\<lambda>c. 0 \<le> c \<and> c \<le> h - 1) row" "mixed_radix h row = k div h"
    by blast
  have "0 \<le> k mod h" "k mod h \<le> h - 1" using h by simp_all
  with row have "length (row @ [k mod h]) = Suc n \<and>
     list_all (\<lambda>c. 0 \<le> c \<and> c \<le> h - 1) (row @ [k mod h]) \<and>
     mixed_radix h (row @ [k mod h]) = k"
    by (simp add: mixed_radix_snoc)
  then show ?case by blast
qed

lemma mixed_radix_bij:
  assumes "0 \<le> height env"
  shows "bij_betw (mixed_radix (height env)) (state_space env) {0..<height env ^ ndim env}"
  unfolding bij_betw_def
proof
  show "inj_on (mixed_radix (height env)) (state_space env)"
    by (rule inj_onI) (auto simp: state_space_def intro: mixed_radix_inj)
  show "mixed_radix (height env) ` state_space env = {0..<height env ^ ndim env}"
  proof (intro equalityI subsetI)
    fix k assume "k \<in> mixed_radix (height env) ` state_space env"
    then obtain row where "length row = ndim env"
      "list_all (\<lambda>c. 0 \<le> c \<and> c \<le> height env - 1) row" "k = mixed_radix (height env) row"
      by (auto simp: state_space_def)
    with mixed_radix_range[of "height env" row] show "k \<in> {0..<height env ^ ndim env}"
      by simp
  next
    fix k assume "k \<in> {0..<height env ^ ndim env}"
    then have "0 \<le> k" "k < height env ^ ndim env" by simp_all
    from mixed_radix_surj[OF assms this] show "k \<in> mixed_radix (height env) ` state_space env"
      by (auto simp: state_space_def)
  qed
qed

lemma state_index_exact:
  assumes "height env ^ ndim env \<le> 2 ^ 63" and "row \<in> state_space env"
  shows "state_index env row = Inr (mixed_radix (height env) row)"
proof -
  from assms(2) have len: "length row = ndim env"
    and p: "list_all (\<lambda>c. 0 \<le> c \<and> c \<le> height env - 1) row"
    by (simp_all add: state_space_def)
  from mixed_radix_range[OF p] assms(1) len
  have r: "- (2 ^ 63) \<le> mixed_radix (height env) row" "mixed_radix (height env) row < 2 ^ 63"
    by simp_all
  have "state_index env row =
      Inr (wrap64 (sum_list (map2 (\<lambda>b c. wrap64 (b * c))
             (map (\<lambda>k. wrap64 (height env ^ k)) (rev [0..<ndim env])) row)))"
    using len by (simp add: state_index_def canonical_base_def Let_def)
  also have "wrap64 (sum_list (map2 (\<lambda>b c. wrap64 (b * c))
             (map (\<lambda>k. wrap64 (height env ^ k)) (rev [0..<ndim env])) row)) =
      wrap64 (sum_list (map2 (\<lambda>b c. b * c) (map (\<lambda>k. height env ^ k) (rev [0..<ndim env])) row))"
    by (rule wrap64_cong) (rule wrapped_sum_mod)
  also have "\<dots> = wrap64 (mixed_radix (height env) row)"
    by (simp only: weighted_sum_mixed_radix[OF len])
  also have "\<dots> = mixed_radix (height env) row"
    by (rule wrap64_id[OF r])
  finally show ?thesis .
qed

lemma collect_map_Inr: "collect (map (\<lambda>x. Inr (f x)) xs) = Inr (map f xs)"
  by (induction xs) simp_all

lemma get_states_indices_exact:
  assumes "height env ^ ndim env \<le> 2 ^ 63" and "set sts \<subseteq> state_space env"
  shows "get_states_indices env (OfTensor sts) = Inr (map (mixed_radix (height env)) sts)"
proof -
  have "map (state_index env) sts = map (\<lambda>row. Inr (mixed_radix (height env) row)) sts"
    using assms(2) state_index_exact[OF assms(1)] by (intro map_cong) auto
  then have "collect (map (state_index env) sts) =
      collect (map (\<lambda>row. Inr (mixed_radix (height env) row)) sts)"
    by (rule arg_cong)
  then show ?thesis by (simp only: get_states_indices_def raw_states.simps collect_map_Inr)
qed

lemma weights_nth:
  "d < n \<Longrightarrow> map (\<lambda>k. h ^ k) (rev [0..<n]) ! d = (h::int) ^ (n - 1 - d)"
  by (simp add: rev_nth)

text \<open>
  C6, as the code has it. The index tensor is a 64-bit one. On a grid with
  \<^verbatim>\<open>height ** ndim \<le> 2 ** 63\<close> (and a height that is not negative),
  \<^verbatim>\<open>get_states_indices\<close> reads each state as a number in base \<^verbatim>\<open>height\<close>, most
  significant coordinate first: coordinate \<^verbatim>\<open>d\<close> has the weight
  \<^verbatim>\<open>height ** (ndim - 1 - d)\<close>. For every state with all coordinates in
  \<^verbatim>\<open>[0, height - 1]\<close> the result lies in \<^verbatim>\<open>[0, height ** ndim)\<close>, and the mapping is a
  bijection between the state space and that interval.
\<close>

theorem state_indices_bijection:
  assumes "0 \<le> height env" and "height env ^ ndim env \<le> 2 ^ 63"
  shows "(\<forall>row\<in>state_space env.
            state_index env row = Inr (mixed_radix (height env) row) \<and>
            mixed_radix (height env) row =
              sum_list (map2 (\<lambda>b c. b * c)
                (map (\<lambda>k. height env ^ k) (rev [0..<ndim env])) row) \<and>
            0 \<le> mixed_radix (height env) row \<and>
            mixed_radix (height env) row < height env ^ ndim env) \<and>
         (\<forall>d<ndim env. map (\<lambda>k. height env ^ k) (rev [0..<ndim env]) ! d =
            height env ^ (ndim env - 1 - d)) \<and>
         bij_betw (mixed_radix (height env)) (state_space env) {0..<height env ^ ndim env} \<and>
         (set sts \<subseteq> state_space env \<longrightarrow>
            get_states_indices env (OfTensor sts) = Inr (map (mixed_radix (height env)) sts)) \<and>
         n_states env = height env ^ ndim env"
proof (intro conjI ballI allI impI)
  fix row assume row: "row \<in> state_space env"
  then have len: "length row = ndim env"
    and p: "list_all (\<lambda>c. 0 \<le> c \<and> c \<le> height env - 1) row"
    by (simp_all add: state_space_def)
  show "state_index env row = Inr (mixed_radix (height env) row)"
    by (rule state_index_exact[OF assms(2) row])
  show "mixed_radix (height env) row =
      sum_list (map2 (\<lambda>b c. b * c) (map (\<lambda>k. height env ^ k) (rev [0..<ndim env])) row)"
    by (rule weighted_sum_mixed_radix[OF len, symmetric])
  from mixed_radix_range[OF p] len
  show "0 \<le> mixed_radix (height env) row" "mixed_radix (height env) row < height env ^ ndim env"
    by simp_all
next
  fix d assume "d < ndim env"
  then show "map (\<lambda>k. height env ^ k) (rev [0..<ndim env]) ! d = height env ^ (ndim env - 1 - d)"
    by (rule weights_nth)
next
  show "bij_betw (mixed_radix (height env)) (state_space env) {0..<height env ^ ndim env}"
    by (rule mixed_radix_bij[OF assms(1)])
next
  assume "set sts \<subseteq> state_space env"
  then show "get_states_indices env (OfTensor sts) = Inr (map (mixed_radix (height env)) sts)"
    by (rule get_states_indices_exact[OF assms(2)])
next
  show "n_states env = height env ^ ndim env" by (simp add: n_states_def)
qed

text \<open>
  The theorem on the grid of the demo: its nine states, in the order of the
  enumeration, have the indices 0 to 8.
\<close>

theorem state_indices_bijection_witness:
  "0 \<le> height demo_env \<and> height demo_env ^ ndim demo_env \<le> 2 ^ 63 \<and>
   set [[0, 0], [0, 1], [0, 2], [1, 0], [1, 1], [1, 2], [2, 0], [2, 1], [2, 2]]
     \<subseteq> state_space demo_env \<and>
   get_states_indices demo_env
     (OfTensor [[0, 0], [0, 1], [0, 2], [1, 0], [1, 1], [1, 2], [2, 0], [2, 1], [2, 2]]) =
     Inr [0, 1, 2, 3, 4, 5, 6, 7, 8] \<and>
   bij_betw (mixed_radix 3) (state_space demo_env) {0..<9}"
proof -
  let ?sts = "[[0, 0], [0, 1], [0, 2], [1, 0], [1, 1], [1, 2], [2, 0], [2, 1], [2, 2 :: int]]"
  have h: "0 \<le> height demo_env" "height demo_env ^ ndim demo_env \<le> 2 ^ 63"
    by (simp_all add: demo_env_def)
  have s: "set ?sts \<subseteq> state_space demo_env"
    by (simp add: state_space_def demo_env_def)
  have m: "map (mixed_radix (height demo_env)) ?sts = [0, 1, 2, 3, 4, 5, 6, 7, 8]"
    by (simp add: mixed_radix_def demo_env_def)
  have e: "height demo_env = 3" "height demo_env ^ ndim demo_env = 9"
    by (simp_all add: demo_env_def)
  from state_indices_bijection[OF h, of ?sts]
  have b: "bij_betw (mixed_radix (height demo_env)) (state_space demo_env)
             {0..<height demo_env ^ ndim demo_env}"
    and g: "set ?sts \<subseteq> state_space demo_env \<longrightarrow>
            get_states_indices demo_env (OfTensor ?sts) =
              Inr (map (mixed_radix (height demo_env)) ?sts)"
    by blast+
  from g s have "get_states_indices demo_env (OfTensor ?sts) = Inr [0, 1, 2, 3, 4, 5, 6, 7, 8]"
    unfolding m by blast
  moreover have "bij_betw (mixed_radix 3) (state_space demo_env) {0..<9}"
    by (rule b[unfolded e(2), unfolded e(1)])
  ultimately show ?thesis using h s by blast
qed

text \<open>
  C6 as stated fails on larger grids, where \<^verbatim>\<open>height ** ndim\<close> exceeds the 64-bit range:
  with the default height 8 and 22 dimensions the weight of coordinate 0 is
  \<^verbatim>\<open>8 ** 21 = 2 ** 63\<close>, which wraps around. The state \<^verbatim>\<open>[1, 0, ..., 0]\<close> gets a negative
  index, and the state \<^verbatim>\<open>[2, 0, ..., 0]\<close> the index 0 of the origin.
\<close>

theorem state_indices_counterexample:
  "1 # replicate 21 0 \<in> state_space wide_env \<and>
   state_index wide_env (1 # replicate 21 0) = Inr (- (2 ^ 63)) \<and>
   get_states_indices wide_env (OfTensor [1 # replicate 21 0]) = Inr [- (2 ^ 63)] \<and>
   2 # replicate 21 0 \<in> state_space wide_env \<and>
   replicate 22 0 \<in> state_space wide_env \<and>
   state_index wide_env (2 # replicate 21 0) = Inr 0 \<and>
   state_index wide_env (replicate 22 0) = Inr 0 \<and>
   2 # replicate 21 0 \<noteq> replicate 22 (0 :: int)"
proof -
  have 1: "1 # replicate 21 0 \<in> state_space wide_env"
    "2 # replicate 21 0 \<in> state_space wide_env" "replicate 22 0 \<in> state_space wide_env"
    by (simp_all add: state_space_def wide_env_def list_all_iff)
  have 2: "state_index wide_env (1 # replicate 21 0) = Inr (- (2 ^ 63))"
    "get_states_indices wide_env (OfTensor [1 # replicate 21 0]) = Inr [- (2 ^ 63)]"
    "state_index wide_env (2 # replicate 21 0) = Inr 0"
    "state_index wide_env (replicate 22 0) = Inr 0"
    by code_simp+
  have 3: "2 # replicate 21 0 \<noteq> replicate 22 (0 :: int)"
    by code_simp
  from 1 2 3 show ?thesis by blast
qed

section \<open>Forward and back\<close>

lemma sum_list_bump:
  "k < length row \<Longrightarrow> sum_list (row[k := row ! k + v]) = sum_list row + (v::int)"
proof (induction row arbitrary: k)
  case Nil
  then show ?case by simp
next
  case (Cons c row)
  then show ?case by (cases k) simp_all
qed

lemma run_backward_append:
  "run_backward env st (xs @ ys) =
     (case run_backward env st xs of Inl e \<Rightarrow> Inl e | Inr st' \<Rightarrow> run_backward env st' ys)"
proof (induction xs arbitrary: st)
  case Nil
  then show ?case by simp
next
  case (Cons x xs)
  then show ?case by (simp split: sum.splits prod.splits)
qed

text \<open>
  One forward call in which nobody is done and nobody stops, from a batch with
  non-negative coordinates, and the backward call with the same actions after it.
\<close>

lemma step_then_back:
  assumes ok: "shape_ok env st" and mc: "masks_current env st"
    and nn: "non_negative (states st)"
    and nd: "list_all Not (already_dones st)"
    and ns: "\<forall>a\<in>set actions. a \<noteq> int (n_actions env) - 1"
    and s: "step env st actions = Inr (st1, dn)"
  shows "shape_ok env st1" and "masks_current env st1" and "non_negative (states st1)"
    and "list_all Not (already_dones st1)"
    and "list_all (\<lambda>row. sum_list row \<noteq> 0) (states st1)"
    and "backward_step env st1 actions =
           Inr (flag_origins st, already_dones (flag_origins st))"
proof -
  let ?n = "length (states st)"
  note sh = shape_okD[OF ok] and d = step_success[OF ok s]
  have len1: "length (states st1) = ?n" by (rule step_length_states[OF ok s])
  have dn_False: "\<And>i. i < ?n \<Longrightarrow> \<not> dn ! i"
  proof -
    fix i assume i: "i < ?n"
    then have "actions ! i \<in> set actions" using d(1) by simp
    with ns have "actions ! i \<noteq> int (n_actions env) - 1" by blast
    moreover have "\<not> already_dones st ! i"
      using nd i sh(3) by (simp add: list_all_length)
    ultimately show "\<not> dn ! i"
      using i sh(3) d(1) by (simp add: d(4) step_dones_nth)
  qed
  have row: "\<And>i. i < ?n \<Longrightarrow>
      0 \<le> actions ! i \<and> nat (actions ! i) < length (states st ! i) \<and>
      states st1 ! i = (states st ! i)[nat (actions ! i) :=
                          states st ! i ! nat (actions ! i) + 1]"
    using step_moves(3)[OF ok s _ dn_False] sh(4) by simp
  have old: "\<And>i k. i < ?n \<Longrightarrow> k < length (states st ! i) \<Longrightarrow> 0 \<le> states st ! i ! k"
    using nn by (simp add: non_negative_def list_all_length)
  show ok1: "shape_ok env st1" by (rule step_shape_ok[OF ok s])
  show mc1: "masks_current env st1" by (rule step_masks_current[OF s])
  have dones1: "already_dones st1 = dn" by (simp add: d(5) d(4))
  have ldn: "length dn = ?n"
    using d(1) sh(3) by (simp add: d(4) length_step_dones)
  show nd1: "list_all Not (already_dones st1)"
    using dn_False ldn by (simp add: dones1 list_all_length)
  show nn1: "non_negative (states st1)"
    unfolding non_negative_def list_all_length
  proof (intro allI impI)
    fix i k assume i: "i < length (states st1)" and k: "k < length (states st1 ! i)"
    from i len1 have i': "i < ?n" by simp
    from row[OF i'] k old[OF i', of k] old[OF i', of "nat (actions ! i)"]
    show "0 \<le> states st1 ! i ! k"
      by (cases "k = nat (actions ! i)") simp_all
  qed
  have sum1: "\<And>i. i < ?n \<Longrightarrow> sum_list (states st1 ! i) = sum_list (states st ! i) + 1"
    using row by (simp add: sum_list_bump)
  have sum0: "\<And>i. i < ?n \<Longrightarrow> 0 \<le> sum_list (states st ! i)"
  proof -
    fix i assume i: "i < ?n"
    show "0 \<le> sum_list (states st ! i)"
      by (rule sum_list_nonneg) (use old[OF i] in \<open>auto simp: in_set_conv_nth\<close>)
  qed
  show "list_all (\<lambda>row. sum_list row \<noteq> 0) (states st1)"
    unfolding list_all_length
  proof (intro allI impI)
    fix i assume "i < length (states st1)"
    then have i: "i < ?n" using len1 by simp
    from sum1[OF i] sum0[OF i] show "sum_list (states st1 ! i) \<noteq> 0" by simp
  qed
  have lenA: "length actions = length (states st1)" using d(1) len1 by simp
  note sh1 = shape_okD[OF ok1]
  have r: "in_range (backward_masks st1) (already_dones st1) actions"
    unfolding in_range_def
  proof (intro allI impI)
    fix i assume "i < length (already_dones st1)"
    then have i: "i < ?n" using sh1(3) len1 by simp
    from row[OF i] sh(4)[OF i] sh1(6)[of i] i len1
    show "0 \<le> actions ! i \<and> actions ! i < int (length (backward_masks st1 ! i))"
      by (auto simp: nat_less_iff)
  qed
  have a: "allowed (backward_masks st1) (already_dones st1) actions"
    unfolding allowed_def
  proof (intro allI impI)
    fix i assume "i < length (already_dones st1)"
    then have i: "i < ?n" using sh1(3) len1 by simp
    then have i1: "i < length (states st1)" using len1 by simp
    from row[OF i] have k: "nat (actions ! i) < length (states st1 ! i)" by simp
    from row[OF i] old[OF i, of "nat (actions ! i)"]
    have "states st1 ! i ! nat (actions ! i) \<noteq> 0" by simp
    with mc1 masks_entries(5)[OF i1 k, where env = env]
    show "backward_masks st1 ! i ! nat (actions ! i)" by (simp add: masks_current_def)
  qed
  have undone: "moved (- 1) (already_dones st1) (states st1) actions = states st"
  proof (rule nth_equalityI)
    show "length (moved (- 1) (already_dones st1) (states st1) actions) = ?n"
      using lenA sh1(3) len1 by (simp add: length_moved)
  next
    fix i assume "i < length (moved (- 1) (already_dones st1) (states st1) actions)"
    then have i: "i < ?n" using lenA sh1(3) len1 by (simp add: length_moved)
    then have i1: "i < length (states st1)" using len1 by simp
    have "\<not> already_dones st1 ! i" using dn_False[OF i] by (simp add: dones1)
    then have "moved (- 1) (already_dones st1) (states st1) actions ! i =
        index_upd (- 1) (states st1 ! i) (actions ! i)"
      using i1 lenA sh1(3) by (simp add: moved_nth)
    also have "\<dots> = states st ! i"
      using row[OF i] by (simp add: index_upd_in_row)
    finally show "moved (- 1) (already_dones st1) (states st1) actions ! i = states st ! i" .
  qed
  have bd: "backward_dones st1 actions = map (\<lambda>row. sum_list row = 0) (states st)"
  proof (rule nth_equalityI)
    show "length (backward_dones st1 actions) = length (map (\<lambda>row. sum_list row = 0) (states st))"
      using sh1(3) len1 by (simp add: backward_dones_def undone)
  next
    fix i assume "i < length (backward_dones st1 actions)"
    then have i: "i < ?n" using sh1(3) len1 by (simp add: backward_dones_def undone)
    have "\<not> already_dones st1 ! i" using dn_False[OF i] by (simp add: dones1)
    then show "backward_dones st1 actions ! i = map (\<lambda>row. sum_list row = 0) (states st) ! i"
      using i sh1(3) len1 by (simp add: backward_dones_def undone)
  qed
  have "update_masks env
          (st1\<lparr>states := states st,
               already_dones := map (\<lambda>row. sum_list row = 0) (states st)\<rparr>) =
        flag_origins st"
    using mc by (simp add: d(5) update_masks_def flag_origins_def masks_current_def)
  then show "backward_step env st1 actions =
           Inr (flag_origins st, already_dones (flag_origins st))"
    using r a by (simp add: backward_step_eq[OF ok1 lenA] undone bd flag_origins_def)
qed

lemma flag_origins_idle:
  assumes "length (already_dones st) = length (states st)"
    and "list_all Not (already_dones st)"
    and "list_all (\<lambda>row. sum_list row \<noteq> 0) (states st)"
  shows "flag_origins st = st"
proof -
  have "map (\<lambda>row. sum_list row = 0) (states st) = already_dones st"
    using assms by (intro nth_equalityI) (simp_all add: list_all_length)
  then show ?thesis by (simp add: flag_origins_def)
qed

lemma run_then_back:
  assumes "shape_ok env st" and "masks_current env st" and "non_negative (states st)"
    and "list_all Not (already_dones st)"
    and "\<forall>actions\<in>set actions_seq. \<forall>a\<in>set actions. a \<noteq> int (n_actions env) - 1"
    and "actions_seq \<noteq> []"
    and "run_steps env st actions_seq = Inr st'"
  shows "run_backward env st' (rev actions_seq) = Inr (flag_origins st)"
  using assms
proof (induction actions_seq arbitrary: st)
  case Nil
  then show ?case by simp
next
  case (Cons actions rest)
  from Cons.prems(7) obtain st1 dn where s: "step env st actions = Inr (st1, dn)"
    and run: "run_steps env st1 rest = Inr st'"
    by (auto split: sum.splits)
  from Cons.prems(5) have ns: "\<forall>a\<in>set actions. a \<noteq> int (n_actions env) - 1"
    and nsr: "\<forall>actions\<in>set rest. \<forall>a\<in>set actions. a \<noteq> int (n_actions env) - 1"
    by simp_all
  note one = step_then_back[OF Cons.prems(1-4) ns s]
  show ?case
  proof (cases "rest = []")
    case True
    with run have "st' = st1" by simp
    with True one(6) show ?thesis by simp
  next
    case False
    from Cons.IH[OF one(1-4) nsr False run]
    have "run_backward env st' (rev rest) = Inr (flag_origins st1)" .
    also have "flag_origins st1 = st1"
      by (rule flag_origins_idle[OF shape_okD(3)[OF one(1)] one(4) one(5)])
    finally show ?thesis
      using one(6) by (simp add: run_backward_append)
  qed
qed

lemma reset_ready:
  "shape_ok env (reset env)" "masks_current env (reset env)"
  "non_negative (states (reset env))" "list_all Not (already_dones (reset env))"
  "states (reset env) = replicate (n_envs env) (replicate (ndim env) 0)"
  "already_dones (flag_origins (reset env)) = replicate (n_envs env) True"
  "states (flag_origins (reset env)) = replicate (n_envs env) (replicate (ndim env) 0)"
  "masks_current env (flag_origins (reset env))"
proof -
  show "shape_ok env (reset env)"
    unfolding reset_def StatesBatch_zeros_def
    by (rule shape_ok_post_init) (simp add: list_all_iff)
  show "masks_current env (reset env)"
    unfolding reset_def StatesBatch_zeros_def by (rule masks_current_post_init)
  show "non_negative (states (reset env))"
    unfolding reset_def by (rule non_negative_zeros)
  show "list_all Not (already_dones (reset env))"
    by (simp add: reset_def StatesBatch_zeros_def post_init_def list_all_iff)
  show "states (reset env) = replicate (n_envs env) (replicate (ndim env) 0)"
    by (simp add: reset_def StatesBatch_zeros_def post_init_def)
  show "already_dones (flag_origins (reset env)) = replicate (n_envs env) True"
    by (simp add: reset_def StatesBatch_zeros_def post_init_def flag_origins_def
        sum_list_replicate)
  show "states (flag_origins (reset env)) = replicate (n_envs env) (replicate (ndim env) 0)"
    by (simp add: reset_def StatesBatch_zeros_def post_init_def flag_origins_def)
  show "masks_current env (flag_origins (reset env))"
    by (simp add: reset_def StatesBatch_zeros_def post_init_def flag_origins_def
        masks_current_def)
qed

text \<open>
  C3, as the code has it. Take a trajectory of at least one forward call from the
  all-origin batch, every call legal and none with a stop action. The backward calls
  with the same action vectors in the reverse order all succeed; they return the
  batch to the all-zero origin, every element is done at the end, and the masks are
  those of the origin.
\<close>

theorem round_trip:
  assumes "actions_seq \<noteq> []"
    and "\<forall>actions\<in>set actions_seq. \<forall>a\<in>set actions. a \<noteq> int (n_actions env) - 1"
    and "run_steps env (reset env) actions_seq = Inr st"
  shows "\<exists>st'. run_backward env st (rev actions_seq) = Inr st' \<and>
           states st' = replicate (n_envs env) (replicate (ndim env) 0) \<and>
           already_dones st' = replicate (n_envs env) True \<and>
           masks_current env st'"
  using run_then_back[OF reset_ready(1-4) assms(2,1,3)] reset_ready(6-8)[of env]
  by simp

text \<open>
  The theorem on a trajectory of two calls in the demo's environment, which leads to
  the states \<^verbatim>\<open>[[2, 0], [1, 1], [0, 2]]\<close>.
\<close>

theorem round_trip_witness:
  "[[0, 1, 1], [0, 0, 1 :: int]] \<noteq> [] \<and>
   run_steps demo_env (reset demo_env) [[0, 1, 1], [0, 0, 1]] =
     Inr (demo_batch [[2, 0], [1, 1], [0, 2]] [False, False, False]) \<and>
   run_backward demo_env (demo_batch [[2, 0], [1, 1], [0, 2]] [False, False, False])
       (rev [[0, 1, 1], [0, 0, 1]]) =
     Inr (demo_batch [[0, 0], [0, 0], [0, 0]] [True, True, True]) \<and>
   (\<exists>st'. run_backward demo_env (demo_batch [[2, 0], [1, 1], [0, 2]] [False, False, False])
            (rev [[0, 1, 1], [0, 0, 1]]) = Inr st' \<and>
          states st' = replicate (n_envs demo_env) (replicate (ndim demo_env) 0) \<and>
          already_dones st' = replicate (n_envs demo_env) True)"
proof -
  let ?seq = "[[0, 1, 1], [0, 0, 1 :: int]]"
  let ?st = "demo_batch [[2, 0], [1, 1], [0, 2]] [False, False, False]"
  have h1: "?seq \<noteq> []" by simp
  have h2: "\<forall>actions\<in>set ?seq. \<forall>a\<in>set actions. a \<noteq> int (n_actions demo_env) - 1"
    by (simp add: n_actions_def demo_env_def)
  have h3: "run_steps demo_env (reset demo_env) ?seq = Inr ?st" by code_simp
  have b: "run_backward demo_env ?st (rev ?seq) =
      Inr (demo_batch [[0, 0], [0, 0], [0, 0]] [True, True, True])" by code_simp
  from round_trip[OF h1 h2 h3] h1 h3 b show ?thesis by blast
qed

text \<open>
  C3 as stated fails on the trajectory of no call at all: it leads from the all-origin
  batch to itself, its reverse is empty, and the done vector of the batch is all false.
\<close>

theorem round_trip_counterexample:
  "run_steps demo_env (reset demo_env) [] = Inr (reset demo_env) \<and>
   run_backward demo_env (reset demo_env) (rev []) = Inr (reset demo_env) \<and>
   states (reset demo_env) = [[0, 0], [0, 0], [0, 0]] \<and>
   already_dones (reset demo_env) = [False, False, False]"
  by code_simp

section \<open>The forward transition on 64-bit coordinates\<close>

text \<open>
  \<open>step64\<close> in closed form, as \<open>step\<close> above, and the two transitions side by side:
  they differ only where an increment meets the 64-bit limit, which no state of a grid
  of a height below \<^verbatim>\<open>2 ** 63\<close> does.
\<close>

lemma index_add64_eq:
  "index_add64 row a v =
   (if index_ok row a then Inr (index_upd64 v row a) else Inl IndexError)"
  by (simp add: index_add64_def index_ok_def index_upd64_def Let_def)




lemma index_add64_below_limit:
  assumes "list_all (\<lambda>c. - (2 ^ 63) \<le> c \<and> c < 2 ^ 63 - 1) row"
  shows "index_add64 row a 1 = index_add row a 1"
proof (cases "index_ok row a")
  case True
  define j where "j = (if a < 0 then a + int (length row) else a)"
  from True have "nat j < length row" by (auto simp: index_ok_def j_def Let_def)
  with assms have "- (2 ^ 63) \<le> row ! nat j" "row ! nat j < 2 ^ 63 - 1"
    by (simp_all add: list_all_length)
  then have w: "wrap64 (row ! nat j + 1) = row ! nat j + 1" by (intro wrap64_id) simp_all
  have "index_upd64 1 row a = index_upd 1 row a"
    unfolding index_upd64_def index_upd_def Let_def j_def[symmetric] by (simp add: w)
  then show ?thesis by (simp add: index_add64_eq index_add_eq)
next
  case False
  then show ?thesis by (simp add: index_add64_eq index_add_eq)
qed

lemma rows_add64_below_limit:
  "below_limit rs \<Longrightarrow> rows_add64 rs as 1 = rows_add rs as 1"
proof (induction rs arbitrary: as)
  case Nil
  then show ?case by (cases as) simp_all
next
  case (Cons r rs)
  then have r: "list_all (\<lambda>c. - (2 ^ 63) \<le> c \<and> c < 2 ^ 63 - 1) r" and rs: "below_limit rs"
    by (simp_all add: below_limit_def)
  show ?case
  proof (cases as)
    case Nil
    then show ?thesis by simp
  next
    case (Cons a as')
    then show ?thesis
      by (simp add: index_add64_below_limit[OF r] Cons.IH[OF rs] cong: sum.case_cong)
  qed
qed

lemma below_limit_bool_index: "below_limit sts \<Longrightarrow> below_limit (bool_index sts ms)"
  by (induction sts ms rule: bool_index.induct) (auto simp: below_limit_def)

lemma step64_below_limit:
  assumes "below_limit (states st)"
  shows "step64 env st actions = step env st actions"
proof -
  have "rows_add64 (bool_index (states (st\<lparr>already_dones := dn\<rparr>)) ms) as 1 =
        rows_add (bool_index (states (st\<lparr>already_dones := dn\<rparr>)) ms) as 1"
    for dn ms as
    using assms by (intro rows_add64_below_limit below_limit_bool_index) simp
  then show ?thesis unfolding step64_def step_def Let_def by (simp only:)
qed

lemma in_grid_below_limit:
  assumes "in_grid env sts" and "height env < 2 ^ 63"
  shows "below_limit sts"
  unfolding below_limit_def list_all_iff
proof (intro ballI)
  fix row c assume "row \<in> set sts" "c \<in> set row"
  with assms(1) have "0 \<le> c \<and> c \<le> height env - 1"
    by (simp add: in_grid_def list_all_iff)
  with assms(2) show "- (2 ^ 63) \<le> c \<and> c < 2 ^ 63 - 1" by simp
qed

lemma step64_on_grid:
  assumes "in_grid env (states st)" and "height env < 2 ^ 63"
  shows "step64 env st actions = step env st actions"
  by (rule step64_below_limit[OF in_grid_below_limit[OF assms]])

lemma length_moved64:
  "length sts = length frozen \<Longrightarrow> length actions = length frozen \<Longrightarrow>
   length (moved64 v frozen sts actions) = length frozen"
  by (simp add: moved64_def)



section \<open>Batches built from a caller's states\<close>




section \<open>Re-deriving the done flags\<close>

lemma sum_zero_iff_origin:
  assumes "list_all (\<lambda>c. 0 \<le> c) row"
  shows "(sum_list row = 0) = (row = replicate (length row) (0::int))"
proof -
  have "(sum_list row = 0) = (\<forall>c\<in>set row. c = 0)"
    using assms by (intro sum_list_nonneg_eq_0_iff) (simp add: list_all_iff)
  also have "\<dots> = (row = replicate (length row) 0)"
    by (induction row) auto
  finally show ?thesis .
qed

lemma sum_list_nonneg_row: "list_all (\<lambda>c. 0 \<le> c) row \<Longrightarrow> 0 \<le> sum_list (row :: int list)"
  by (induction row) auto

lemma wrap64_zero_iff:
  assumes "0 \<le> s" "s < 2 ^ 64"
  shows "(wrap64 s = 0) = (s = 0)"
proof
  assume "wrap64 s = 0"
  have "s mod 2 ^ 64 = wrap64 s mod 2 ^ 64" by (rule wrap64_mod[symmetric])
  also have "\<dots> = 0" using \<open>wrap64 s = 0\<close> by simp
  finally show "s = 0" using assms by simp
next
  assume "s = 0"
  then show "wrap64 s = 0" by (simp add: wrap64_def)
qed

lemma sum_list_le_row:
  "list_all (\<lambda>c. c \<le> m) row \<Longrightarrow> sum_list row \<le> int (length row) * (m :: int)"
  by (induction row) (auto simp: algebra_simps)

lemma sums_fit_zeros: "sums_fit (states (StatesBatch_zeros env))"
  by (simp add: sums_fit_def StatesBatch_zeros_def post_init_def list_all_iff sum_list_replicate)

lemma sums_fit_random:
  assumes "randint_range env drawn" and "int (ndim env) * (height env - 1) < 2 ^ 64"
  shows "sums_fit (states (StatesBatch_random env drawn))"
proof -
  have "sum_list row < 2 ^ 64" if r: "row \<in> set drawn" for row
  proof -
    from assms(1) r have l: "length row = ndim env"
      and "list_all (\<lambda>c. 0 \<le> c \<and> c < height env) row"
      by (auto simp: randint_range_def list_all_iff)
    then have "list_all (\<lambda>c. c \<le> height env - 1) row"
      by (auto simp: list_all_iff)
    from sum_list_le_row[OF this] l assms(2) show ?thesis by simp
  qed
  then show ?thesis
    by (simp add: sums_fit_def StatesBatch_random_def post_init_def list_all_iff)
qed

text \<open>
  C9, as the code has it. \<^verbatim>\<open>update_the_dones\<close> changes nothing but the done flags. It
  tests the 64-bit sum of a row against zero, so on a batch whose coordinates are all
  non-negative and whose rows each sum to less than \<^verbatim>\<open>2 ** 64\<close>, an element's done flag
  is afterwards true iff its state is the all-zero origin. A zero-initialised batch is
  such a batch; a randomly initialised one has non-negative coordinates, and row sums
  below \<^verbatim>\<open>2 ** 64\<close> when \<^verbatim>\<open>ndim * (height - 1)\<close> is; a batch built from a caller's array
  has the states it was given, whatever they are.
\<close>

theorem update_the_dones_origin:
  assumes "non_negative (states st)" and "sums_fit (states st)"
  shows "states (update_the_dones st) = states st \<and>
         masks (update_the_dones st) = masks st \<and>
         backward_masks (update_the_dones st) = backward_masks st \<and>
         length (already_dones (update_the_dones st)) = length (states st) \<and>
         (\<forall>i<length (states st).
            already_dones (update_the_dones st) ! i =
              (states st ! i = replicate (length (states st ! i)) 0)) \<and>
         non_negative (states (StatesBatch_zeros env)) \<and>
         sums_fit (states (StatesBatch_zeros env)) \<and>
         (randint_range env drawn \<longrightarrow> non_negative (states (StatesBatch_random env drawn))) \<and>
         (randint_range env drawn \<and> int (ndim env) * (height env - 1) < 2 ^ 64 \<longrightarrow>
            sums_fit (states (StatesBatch_random env drawn))) \<and>
         (\<forall>b. StatesBatch_of env sts = Inr b \<longrightarrow> states b = sts)"
proof -
  have "\<forall>i<length (states st).
            already_dones (update_the_dones st) ! i =
              (states st ! i = replicate (length (states st ! i)) 0)"
  proof (intro allI impI)
    fix i assume i: "i < length (states st)"
    with assms(1) have nn: "list_all (\<lambda>c. 0 \<le> c) (states st ! i)"
      by (simp add: non_negative_def list_all_length)
    from assms(2) i have "sum_list (states st ! i) < 2 ^ 64"
      by (simp add: sums_fit_def list_all_length)
    from wrap64_zero_iff[OF sum_list_nonneg_row[OF nn] this] sum_zero_iff_origin[OF nn] i
    show "already_dones (update_the_dones st) ! i =
              (states st ! i = replicate (length (states st ! i)) 0)"
      by (simp add: update_the_dones_def)
  qed
  moreover have "\<forall>b. StatesBatch_of env sts = Inr b \<longrightarrow> states b = sts"
    by (auto simp: StatesBatch_of_def post_init_def split: if_splits)
  ultimately show ?thesis
    using non_negative_zeros[of env] non_negative_random[of env drawn]
      sums_fit_zeros[of env] sums_fit_random[of env drawn]
    by (simp add: update_the_dones_def)
qed

text \<open>
  The theorem on a batch of the demo's environment with the states
  \<^verbatim>\<open>[[2, 1], [0, 0], [0, 2]]\<close>, which \<^verbatim>\<open>torch.randint(0, 3, (3, 2))\<close> can draw: only
  element 1 is at the origin, and only it is done.
\<close>

theorem update_the_dones_origin_witness:
  "randint_range demo_env [[2, 1], [0, 0], [0, 2]] \<and>
   int (ndim demo_env) * (height demo_env - 1) < 2 ^ 64 \<and>
   non_negative (states (StatesBatch_random demo_env [[2, 1], [0, 0], [0, 2]])) \<and>
   sums_fit (states (StatesBatch_random demo_env [[2, 1], [0, 0], [0, 2]])) \<and>
   already_dones (update_the_dones (StatesBatch_random demo_env [[2, 1], [0, 0], [0, 2]])) =
     [False, True, False] \<and>
   already_dones (update_the_dones (StatesBatch_random demo_env [[2, 1], [0, 0], [0, 2]])) ! 1 =
     (states (StatesBatch_random demo_env [[2, 1], [0, 0], [0, 2]]) ! 1 =
        replicate (length (states (StatesBatch_random demo_env [[2, 1], [0, 0], [0, 2]]) ! 1)) 0)"
proof -
  let ?sts = "[[2, 1], [0, 0], [0, 2 :: int]]"
  let ?b = "StatesBatch_random demo_env ?sts"
  have r: "randint_range demo_env ?sts" by code_simp
  have s: "int (ndim demo_env) * (height demo_env - 1) < 2 ^ 64" by code_simp
  have h1: "non_negative (states ?b)" by code_simp
  have h2: "sums_fit (states ?b)" by code_simp
  have d: "already_dones (update_the_dones ?b) = [False, True, False]" by code_simp
  have i: "1 < length (states ?b)" by code_simp
  from update_the_dones_origin[OF h1 h2] i d h1 h2 r s show ?thesis by blast
qed

text \<open>
  C9 as stated fails on batches built from a caller's array. With a negative
  coordinate: the state \<^verbatim>\<open>[1, -1]\<close> sums to zero, so \<^verbatim>\<open>update_the_dones\<close> flags it done,
  and it is not the origin. Without one: the coordinates of the state
  \<^verbatim>\<open>[2 ** 63 - 1, 2 ** 63 - 1, 2]\<close> are non-negative 64-bit integers, their sum
  \<^verbatim>\<open>2 ** 64\<close> wraps around to zero, and the state is flagged done as well.
\<close>

theorem update_the_dones_counterexample:
  "StatesBatch_of demo_env [[1, - 1]] = Inr (post_init demo_env [[1, - 1]]) \<and>
   states (update_the_dones (post_init demo_env [[1, - 1]])) = [[1, - 1]] \<and>
   already_dones (update_the_dones (post_init demo_env [[1, - 1]])) = [True] \<and>
   [1, - 1] \<noteq> replicate 2 (0 :: int) \<and>
   StatesBatch_of cube_env [[2 ^ 63 - 1, 2 ^ 63 - 1, 2]] =
     Inr (post_init cube_env [[2 ^ 63 - 1, 2 ^ 63 - 1, 2]]) \<and>
   non_negative [[2 ^ 63 - 1, 2 ^ 63 - 1, 2]] \<and>
   states (update_the_dones (post_init cube_env [[2 ^ 63 - 1, 2 ^ 63 - 1, 2]])) =
     [[2 ^ 63 - 1, 2 ^ 63 - 1, 2]] \<and>
   already_dones (update_the_dones (post_init cube_env [[2 ^ 63 - 1, 2 ^ 63 - 1, 2]])) =
     [True] \<and>
   [2 ^ 63 - 1, 2 ^ 63 - 1, 2] \<noteq> replicate 3 (0 :: int)"
  by code_simp

end
